theory Spec2Isabelle
  imports Complex_Main "HOL-Library.Word" "HOL-Library.Sublist" "HOL-Library.AList"
begin

section \<open>Prana BLE driver: service.py\<close>

text \<open>
  A shallow embedding of \<^verbatim>\<open>src/service.py\<close>: the state decoder
  \<^verbatim>\<open>PranaDevice.__parse_state\<close>, the advertisement filter of
  \<^verbatim>\<open>PranaDeviceManager\<close>, and the connection and command operations of both classes
  over an explicit transport. Not modelled: the output of \<^verbatim>\<open>print\<close>, the asynchronous
  call of \<^verbatim>\<open>notification_handler\<close> by the transport, the event loop that is only
  handed on to the library, and the helper \<^verbatim>\<open>test_retrieve_state\<close>.
\<close>

subsection \<open>Python values\<close>

text \<open>The exceptions the code raises itself or lets through from the transport.\<close>

datatype error =
    IndexError
  | ValueError
  | RuntimeError
  | TypeError
  | TransportError

text \<open>A \<^verbatim>\<open>bytearray\<close> is a list of integers in \<open>0..255\<close>.\<close>

type_synonym byte = "8 word"
type_synonym bytes = "byte list"

text \<open>
  \<^verbatim>\<open>data[i]\<close> for a constant non-negative index: an index at or beyond the length
  raises \<^verbatim>\<open>IndexError\<close>. The element is a Python \<^verbatim>\<open>int\<close>.
\<close>

definition getitem :: "bytes \<Rightarrow> nat \<Rightarrow> error + nat" where
  "getitem data i = (if i < length data then Inr (unat (data ! i)) else Inl IndexError)"

text \<open>
  \<^verbatim>\<open>int(b / 10)\<close>: true division, then truncation towards zero. The quotient is
  taken exactly; for \<open>b\<close> in \<open>0..255\<close> the double nearest to \<open>b / 10\<close> lies on the same
  side of every integer as \<open>b / 10\<close> itself (an integral quotient is a double), so the
  truncation of the double is the truncation of the exact quotient.
\<close>

definition int_truediv10 :: "nat \<Rightarrow> int" where
  "int_truediv10 b = \<lfloor>(of_nat b :: rat) / 10\<rfloor>"

text \<open>\<^verbatim>\<open>bool(b)\<close> of an integer.\<close>

definition bool_of :: "nat \<Rightarrow> bool" where
  "bool_of b = (b \<noteq> 0)"

subsection \<open>The state decoder\<close>

text \<open>
  Modelled from the spec: the record \<^verbatim>\<open>entity.PranaState\<close> (the spec's DeviceState) is
  not among the sources; it is taken to hold the eleven attributes that
  \<^verbatim>\<open>__parse_state\<close> assigns.
\<close>

record PranaState =
  speed_locked :: int
  speed_in :: int
  speed_out :: int
  auto_mode :: bool
  night_mode :: bool
  flows_locked :: bool
  is_on :: bool
  mini_heating_enabled :: bool
  winter_mode_enabled :: bool
  is_input_fan_on :: bool
  is_output_fan_on :: bool

definition STATE_MSG_PREFIX :: bytes where
  "STATE_MSG_PREFIX = [0xBE, 0xEF]"

text \<open>
  \<^verbatim>\<open>__parse_state\<close>: the marker test on the slice \<^verbatim>\<open>data[:2]\<close> (which never raises),
  then the eleven reads in the order of the source; the first read out of range raises.
  The two \<^verbatim>\<open>print\<close> calls are not modelled.
\<close>

definition after :: "error + 'a \<Rightarrow> ('a \<Rightarrow> error + 'b) \<Rightarrow> error + 'b" where
  "after r f = (case r of Inl e \<Rightarrow> Inl e | Inr v \<Rightarrow> f v)"

definition parse_state :: "bytes \<Rightarrow> error + PranaState option" where
  "parse_state data =
    (if \<not> take 2 data = STATE_MSG_PREFIX then Inr None
     else
       after (getitem data 26) (\<lambda>b26.
       after (getitem data 30) (\<lambda>b30.
       after (getitem data 34) (\<lambda>b34.
       after (getitem data 20) (\<lambda>b20.
       after (getitem data 16) (\<lambda>b16.
       after (getitem data 22) (\<lambda>b22.
       after (getitem data 10) (\<lambda>b10.
       after (getitem data 14) (\<lambda>b14.
       after (getitem data 42) (\<lambda>b42.
       after (getitem data 28) (\<lambda>b28.
       after (getitem data 32) (\<lambda>b32.
         Inr (Some \<lparr>
           speed_locked = int_truediv10 b26,
           speed_in = int_truediv10 b30,
           speed_out = int_truediv10 b34,
           auto_mode = bool_of b20,
           night_mode = bool_of b16,
           flows_locked = bool_of b22,
           is_on = bool_of b10,
           mini_heating_enabled = bool_of b14,
           winter_mode_enabled = bool_of b42,
           is_input_fan_on = bool_of b28,
           is_output_fan_on = bool_of b32
         \<rparr>)))))))))))))"

subsection \<open>The advertisement filter\<close>

text \<open>
  A Python \<^verbatim>\<open>str\<close> is a sequence of Unicode code points; \<open>str_of\<close> reads an ASCII
  literal.
\<close>

type_synonym str = "nat list"

definition str_of :: "string \<Rightarrow> str" where
  "str_of cs = map of_char cs"

text \<open>\<^verbatim>\<open>str.isspace\<close> on one code point (the white space of CPython's Unicode database).\<close>

definition isspace :: "nat \<Rightarrow> bool" where
  "isspace c = (c \<in> set ([9, 10, 11, 12, 13, 28, 29, 30, 31, 32, 133, 160, 5760]
      @ [8192 ..< 8203] @ [8232, 8233, 8239, 8287, 12288]))"

text \<open>\<^verbatim>\<open>s.strip()\<close>: white space removed from both ends.\<close>

definition strip :: "str \<Rightarrow> str" where
  "strip s = rev (dropWhile isspace (rev (dropWhile isspace s)))"

text \<open>\<^verbatim>\<open>s.startswith(p)\<close>.\<close>

definition startswith :: "str \<Rightarrow> str \<Rightarrow> bool" where
  "startswith s p = prefix p s"

text \<open>
  \<^verbatim>\<open>s.replace(old, '')\<close>: the string is scanned from the left; where \<open>old\<close> occurs
  it is skipped and the scan goes on behind it, otherwise one character is kept. With an
  empty \<open>old\<close> (and the empty replacement) the string is returned as it is.
\<close>

function replace_empty :: "str \<Rightarrow> str \<Rightarrow> str" where
  "replace_empty old [] = []"
| "replace_empty old (c # cs) =
     (if old \<noteq> [] \<and> prefix old (c # cs)
      then replace_empty old (drop (length old) (c # cs))
      else c # replace_empty old cs)"
  by pat_completeness auto
termination
  by (relation "measure (\<lambda>(old, s). length s)") auto

text \<open>
  \<^verbatim>\<open>bleak.backends.device.BLEDevice\<close>, as far as the code reads it; the name of an
  advertisement may be missing (\<^verbatim>\<open>None\<close>).
\<close>

record BLEDevice =
  ble_address :: str
  ble_name :: "str option"
  ble_rssi :: int

text \<open>
  Modelled from the spec: the record \<^verbatim>\<open>entity.PranaDeviceInfo\<close> (the spec's
  DeviceIdentity) is not among the sources; it holds the four keyword arguments that
  \<^verbatim>\<open>discover\<close> passes to its constructor.
\<close>

record PranaDeviceInfo =
  address :: str
  bt_device_name :: str
  name :: "str option"
  rssi :: int

definition PRANA_DEVICE_NAME_PREFIX :: str where
  "PRANA_DEVICE_NAME_PREFIX = str_of ''PRNAQaq''"

text \<open>
  \<^verbatim>\<open>__is_prana_device\<close>, as \<^verbatim>\<open>filter\<close> reads its result: \<^verbatim>\<open>None\<close> and the empty
  name are falsy.
\<close>

definition is_prana_device :: "BLEDevice \<Rightarrow> bool" where
  "is_prana_device dev =
     (case ble_name dev of
        None \<Rightarrow> False
      | Some n \<Rightarrow> n \<noteq> [] \<and> startswith n PRANA_DEVICE_NAME_PREFIX)"

text \<open>\<^verbatim>\<open>__prana_dev_name_2_name\<close>: a falsy name is returned unchanged.\<close>

definition prana_dev_name_2_name :: "str option \<Rightarrow> str option" where
  "prana_dev_name_2_name dev_name =
     (case dev_name of
        None \<Rightarrow> None
      | Some n \<Rightarrow>
          if n \<noteq> [] then Some (strip (replace_empty PRANA_DEVICE_NAME_PREFIX n))
          else Some n)"

text \<open>The \<^verbatim>\<open>lambda\<close> of \<^verbatim>\<open>discover\<close>; \<^verbatim>\<open>dev.name or ''\<close> replaces a falsy name.\<close>

definition device_info :: "BLEDevice \<Rightarrow> PranaDeviceInfo" where
  "device_info dev =
     \<lparr>address = ble_address dev,
      bt_device_name = strip (case ble_name dev of None \<Rightarrow> [] | Some n \<Rightarrow> n),
      name = prana_dev_name_2_name (ble_name dev),
      rssi = ble_rssi dev\<rparr>"

text \<open>What \<^verbatim>\<open>discover\<close> makes of the scanner's list.\<close>

definition discovered :: "BLEDevice list \<Rightarrow> PranaDeviceInfo list" where
  "discovered discovered_devs = map device_info (filter is_prana_device discovered_devs)"

subsection \<open>The filter in the words of the specification\<close>

text \<open>
  An occurrence of \<open>old\<close> starts at position \<open>j\<close> of \<open>s\<close>; position \<open>i\<close> is covered
  when it lies inside some occurrence. Removing all occurrences keeps the positions that
  are not covered.
\<close>

definition occurs_at :: "str \<Rightarrow> str \<Rightarrow> nat \<Rightarrow> bool" where
  "occurs_at old s j = (old \<noteq> [] \<and> take (length old) (drop j s) = old)"

definition covered :: "str \<Rightarrow> str \<Rightarrow> nat \<Rightarrow> bool" where
  "covered old s i = list_ex (\<lambda>j. i < j + length old \<and> occurs_at old s j) [0 ..< Suc i]"

definition remove_all_occurrences :: "str \<Rightarrow> str \<Rightarrow> str" where
  "remove_all_occurrences old s =
     map (nth s) (filter (\<lambda>i. \<not> covered old s i) [0 ..< length s])"

text \<open>
  The identity filter of the specification: an identity for an advertisement whose name
  is non-empty and starts with the prefix, nothing otherwise; the friendly name is the
  name with all occurrences of the prefix removed, then trimmed.
\<close>

definition spec_identity_filter :: "BLEDevice \<Rightarrow> PranaDeviceInfo option" where
  "spec_identity_filter dev =
     (case ble_name dev of
        None \<Rightarrow> None
      | Some n \<Rightarrow>
          if n \<noteq> [] \<and> prefix PRANA_DEVICE_NAME_PREFIX n
          then Some \<lparr>address = ble_address dev,
                     bt_device_name = strip n,
                     name = Some (strip (remove_all_occurrences PRANA_DEVICE_NAME_PREFIX n)),
                     rssi = ble_rssi dev\<rparr>
          else None)"

subsection \<open>The transport and the objects\<close>

text \<open>
  The BLE library (\<^verbatim>\<open>bleak\<close>) and \<^verbatim>\<open>asyncio.sleep\<close> are outside the program. Every
  call the program makes to them is appended to a trace; what a call answers is given
  by a transport, which may look at all calls made before. A call that raises still
  is in the trace. Times are in seconds.
\<close>

datatype event =
    Discover rat
  | BleakClient nat str str
  | ClientConnect nat rat
  | StartNotify nat string nat
  | ClientDisconnect nat
  | ClientIsConnected nat
  | WriteGattChar nat string bytes bool
  | Sleep rat
  | ReadGattChar nat string bool

text \<open>
  \<open>BleakClient c a i\<close> constructs client \<open>c\<close> for address \<open>a\<close> on adapter \<open>i\<close>;
  \<open>StartNotify c u d\<close> subscribes the \<^verbatim>\<open>notification_handler\<close> of device \<open>d\<close> to
  characteristic \<open>u\<close>; the flag of \<open>WriteGattChar\<close> is \<^verbatim>\<open>response\<close>, the one of
  \<open>ReadGattChar\<close> is \<^verbatim>\<open>use_cached\<close>.
\<close>

record transport =
  discover_reply :: "event list \<Rightarrow> rat \<Rightarrow> error + BLEDevice list"
  connect_reply :: "event list \<Rightarrow> nat \<Rightarrow> rat \<Rightarrow> error option"
  start_notify_reply :: "event list \<Rightarrow> nat \<Rightarrow> error option"
  disconnect_reply :: "event list \<Rightarrow> nat \<Rightarrow> error option"
  is_connected_reply :: "event list \<Rightarrow> nat \<Rightarrow> error + bool"
  write_reply :: "event list \<Rightarrow> nat \<Rightarrow> bytes \<Rightarrow> error option"
  read_reply :: "event list \<Rightarrow> nat \<Rightarrow> error + bytes"

text \<open>The attributes of a \<^verbatim>\<open>PranaDevice\<close>; \<open>client\<close> names its \<^verbatim>\<open>BleakClient\<close>.\<close>

record PranaDevice =
  device_address :: str
  client :: nat
  has_connect_attempts :: bool

text \<open>
  A \<^verbatim>\<open>PranaDeviceManager\<close> with the objects it reaches: its dictionary
  \<^verbatim>\<open>__managed_devices\<close> from addresses to \<^verbatim>\<open>PranaDevice\<close> objects, in insertion
  order and by reference; the objects themselves; the next unused reference; the trace.
\<close>

record system =
  ble_interface :: str
  managed_devices :: "(str \<times> nat) list"
  objects :: "nat \<Rightarrow> PranaDevice"
  fresh :: nat
  trace :: "event list"

text \<open>\<^verbatim>\<open>PranaDeviceManager.__init__\<close>: an empty dictionary.\<close>

definition manager_init :: "str \<Rightarrow> system" where
  "manager_init iface =
     \<lparr>ble_interface = iface,
      managed_devices = [],
      objects = (\<lambda>_. \<lparr>device_address = [], client = 0, has_connect_attempts = False\<rparr>),
      fresh = 0,
      trace = []\<rparr>"

text \<open>A call of the library: its answer, and the trace one event longer.\<close>

definition call :: "event \<Rightarrow> error + 'a \<Rightarrow> system \<Rightarrow> (error + 'a) \<times> system" where
  "call ev answer s = (answer, s\<lparr>trace := trace s @ [ev]\<rparr>)"

definition raised :: "error option \<Rightarrow> error + unit" where
  "raised r = (case r of None \<Rightarrow> Inr () | Some e \<Rightarrow> Inl e)"

definition CONTROL_RW_CHARACTERISTIC_UUID :: string where
  "CONTROL_RW_CHARACTERISTIC_UUID = ''0000cccc-0000-1000-8000-00805f9b34fb''"

definition ENABLE_HIGH_SPEED :: bytes where
  "ENABLE_HIGH_SPEED = [0xBE, 0xEF, 0x04, 0x07]"

definition ENABLE_NIGHT_MODE :: bytes where
  "ENABLE_NIGHT_MODE = [0xBE, 0xEF, 0x04, 0x06]"

definition STOP :: bytes where
  "STOP = [0xBE, 0xEF, 0x04, 0x01]"

definition READ_STATE :: bytes where
  "READ_STATE = [0xBE, 0xEF, 0x05, 0x01, 0x00, 0x00, 0x00, 0x00, 0x5A]"

subsection \<open>PranaDevice\<close>

text \<open>
  What \<^verbatim>\<open>connect\<close> and the constructors are given as a device: an address, a
  \<^verbatim>\<open>PranaDeviceInfo\<close>, or an object of any other type.
\<close>

datatype target = Address str | Info PranaDeviceInfo | Other

text \<open>
  \<^verbatim>\<open>PranaDevice.__init__\<close>: a new object with a new client and the flag clear; the
  result is the reference of the object.
\<close>

definition device_init :: "target \<Rightarrow> str \<Rightarrow> system \<Rightarrow> (error + nat) \<times> system" where
  "device_init tgt iface s =
     (case (case tgt of Info i \<Rightarrow> Inr (address i) | Address a \<Rightarrow> Inr a | Other \<Rightarrow> Inl ValueError) of
        Inl e \<Rightarrow> (Inl e, s)
      | Inr a \<Rightarrow>
          (let self = fresh s; c = Suc (fresh s);
               s1 = s\<lparr>fresh := Suc (Suc (fresh s)), trace := trace s @ [BleakClient c a iface]\<rparr>
           in (Inr self,
               s1\<lparr>objects := (objects s1)
                    (self := \<lparr>device_address = a, client = c, has_connect_attempts = False\<rparr>)\<rparr>)))"

text \<open>\<^verbatim>\<open>is_connected\<close>: no question to the transport before the flag is set.\<close>

definition is_connected :: "transport \<Rightarrow> nat \<Rightarrow> system \<Rightarrow> (error + bool) \<times> system" where
  "is_connected tr self s =
     (if \<not> has_connect_attempts (objects s self) then (Inr False, s)
      else call (ClientIsConnected (client (objects s self)))
             (is_connected_reply tr (trace s) (client (objects s self))) s)"

text \<open>\<^verbatim>\<open>__verify_connected\<close>: raises \<^verbatim>\<open>RuntimeError\<close> when not connected.\<close>

definition verify_connected :: "transport \<Rightarrow> nat \<Rightarrow> system \<Rightarrow> (error + unit) \<times> system" where
  "verify_connected tr self s =
     (case is_connected tr self s of
        (Inl e, s1) \<Rightarrow> (Inl e, s1)
      | (Inr up, s1) \<Rightarrow>
          if \<not> up then (Inl RuntimeError, s1) else (Inr (), s1))"

text \<open>
  \<^verbatim>\<open>PranaDevice.connect\<close>: open the transport, set the flag, subscribe. The test of
  \<^verbatim>\<open>is_connected\<close> before it is commented out in the source.
\<close>

definition device_connect :: "transport \<Rightarrow> nat \<Rightarrow> rat \<Rightarrow> system \<Rightarrow> (error + unit) \<times> system" where
  "device_connect tr self timeout s =
     (case call (ClientConnect (client (objects s self)) timeout)
             (raised (connect_reply tr (trace s) (client (objects s self)) timeout)) s of
        (Inl e, s1) \<Rightarrow> (Inl e, s1)
      | (Inr _, s1) \<Rightarrow>
          (let s2 = s1\<lparr>objects := (objects s1)
                      (self := (objects s1 self)\<lparr>has_connect_attempts := True\<rparr>)\<rparr>
           in call (StartNotify (client (objects s2 self)) CONTROL_RW_CHARACTERISTIC_UUID self)
                (raised (start_notify_reply tr (trace s2) (client (objects s2 self)))) s2))"

text \<open>\<^verbatim>\<open>PranaDevice.disconnect\<close>: the transport's disconnect, whatever the flag.\<close>

definition device_disconnect :: "transport \<Rightarrow> nat \<Rightarrow> system \<Rightarrow> (error + unit) \<times> system" where
  "device_disconnect tr self s =
     call (ClientDisconnect (client (objects s self)))
       (raised (disconnect_reply tr (trace s) (client (objects s self)))) s"

text \<open>
  \<^verbatim>\<open>_send_command\<close>: write with \<^verbatim>\<open>response=True\<close>, sleep 0.6 seconds, read with
  \<^verbatim>\<open>use_cached=False\<close>; the bytes read are the result only with \<^verbatim>\<open>expect_reply\<close>,
  otherwise the result is \<^verbatim>\<open>None\<close>.
\<close>

definition send_command ::
    "transport \<Rightarrow> nat \<Rightarrow> bytes \<Rightarrow> bool \<Rightarrow> system \<Rightarrow> (error + bytes option) \<times> system" where
  "send_command tr self command expect_reply s =
     (case call (WriteGattChar (client (objects s self)) CONTROL_RW_CHARACTERISTIC_UUID command True)
             (raised (write_reply tr (trace s) (client (objects s self)) command)) s of
        (Inl e, s1) \<Rightarrow> (Inl e, s1)
      | (Inr _, s1) \<Rightarrow>
          (case call (Sleep (6 / 10)) (Inr ()) s1 of
             (Inl e, s2) \<Rightarrow> (Inl e, s2)
           | (Inr _, s2) \<Rightarrow>
               (case call (ReadGattChar (client (objects s2 self)) CONTROL_RW_CHARACTERISTIC_UUID False)
                       (read_reply tr (trace s2) (client (objects s2 self))) s2 of
                  (Inl e, s3) \<Rightarrow> (Inl e, s3)
                | (Inr result, s3) \<Rightarrow>
                    if expect_reply then (Inr (Some result), s3) else (Inr None, s3))))"

text \<open>
  The body that \<^verbatim>\<open>set_high_speed\<close>, \<^verbatim>\<open>set_night_mode\<close> and \<^verbatim>\<open>turn_off\<close> share:
  verify, then send without \<^verbatim>\<open>expect_reply\<close>; the result of the send is dropped.
\<close>

definition verified_send :: "transport \<Rightarrow> nat \<Rightarrow> bytes \<Rightarrow> system \<Rightarrow> (error + unit) \<times> system" where
  "verified_send tr self cmd s =
     (case verify_connected tr self s of
        (Inl e, s1) \<Rightarrow> (Inl e, s1)
      | (Inr _, s1) \<Rightarrow>
          (case send_command tr self cmd False s1 of
             (Inl e, s2) \<Rightarrow> (Inl e, s2)
           | (Inr _, s2) \<Rightarrow> (Inr (), s2)))"

definition set_high_speed :: "transport \<Rightarrow> nat \<Rightarrow> system \<Rightarrow> (error + unit) \<times> system" where
  "set_high_speed tr self s = verified_send tr self ENABLE_HIGH_SPEED s"

definition set_night_mode :: "transport \<Rightarrow> nat \<Rightarrow> system \<Rightarrow> (error + unit) \<times> system" where
  "set_night_mode tr self s = verified_send tr self ENABLE_NIGHT_MODE s"

definition turn_off :: "transport \<Rightarrow> nat \<Rightarrow> system \<Rightarrow> (error + unit) \<times> system" where
  "turn_off tr self s = verified_send tr self STOP s"

text \<open>
  \<^verbatim>\<open>read_state\<close>: verify, send with \<^verbatim>\<open>expect_reply=True\<close>, decode the reply.
  (Slicing \<^verbatim>\<open>None\<close> would raise \<^verbatim>\<open>TypeError\<close>; with \<^verbatim>\<open>expect_reply=True\<close> the reply
  is never \<^verbatim>\<open>None\<close>.)
\<close>

definition read_state :: "transport \<Rightarrow> nat \<Rightarrow> system \<Rightarrow> (error + PranaState option) \<times> system" where
  "read_state tr self s =
     (case verify_connected tr self s of
        (Inl e, s1) \<Rightarrow> (Inl e, s1)
      | (Inr _, s1) \<Rightarrow>
          (case send_command tr self READ_STATE True s1 of
             (Inl e, s2) \<Rightarrow> (Inl e, s2)
           | (Inr None, s2) \<Rightarrow> (Inl TypeError, s2)
           | (Inr (Some state_bin), s2) \<Rightarrow> (parse_state state_bin, s2)))"

subsection \<open>PranaDeviceManager\<close>

text \<open>\<^verbatim>\<open>__addr_for_target\<close>.\<close>

definition addr_for_target :: "target \<Rightarrow> error + str" where
  "addr_for_target tgt =
     (case tgt of Info i \<Rightarrow> Inr (address i) | Address a \<Rightarrow> Inr a | Other \<Rightarrow> Inl ValueError)"

text \<open>\<^verbatim>\<open>discover\<close>: the scanner's list, filtered and mapped.\<close>

definition manager_discover ::
    "transport \<Rightarrow> rat \<Rightarrow> system \<Rightarrow> (error + PranaDeviceInfo list) \<times> system" where
  "manager_discover tr timeout s =
     (case call (Discover timeout) (discover_reply tr (trace s) timeout) s of
        (Inl e, s1) \<Rightarrow> (Inl e, s1)
      | (Inr discovered_devs, s1) \<Rightarrow> (Inr (discovered discovered_devs), s1))"

text \<open>
  \<^verbatim>\<open>PranaDeviceManager.connect\<close>: the device stored for the address, or a new one
  stored first; then the device's \<^verbatim>\<open>connect\<close>, whose exception leaves the device
  stored. The result is the reference of the device.
\<close>

definition manager_connect ::
    "transport \<Rightarrow> target \<Rightarrow> rat \<Rightarrow> system \<Rightarrow> (error + nat) \<times> system" where
  "manager_connect tr tgt timeout s =
     (case addr_for_target tgt of
        Inl e \<Rightarrow> (Inl e, s)
      | Inr a \<Rightarrow>
          (case (case map_of (managed_devices s) a of
                   Some device \<Rightarrow> (Inr device, s)
                 | None \<Rightarrow>
                     (case device_init (Address a) (ble_interface s) s of
                        (Inl e, s1) \<Rightarrow> (Inl e, s1)
                      | (Inr device, s1) \<Rightarrow>
                          (Inr device,
                           s1\<lparr>managed_devices := AList.update a device (managed_devices s1)\<rparr>))) of
             (Inl e, s2) \<Rightarrow> (Inl e, s2)
           | (Inr device, s2) \<Rightarrow>
               (case device_connect tr device timeout s2 of
                  (Inl e, s3) \<Rightarrow> (Inl e, s3)
                | (Inr _, s3) \<Rightarrow> (Inr device, s3))))"

text \<open>
  \<^verbatim>\<open>disconnect_all\<close>: the loop over the dictionary's values, in insertion order; an
  exception of one \<^verbatim>\<open>disconnect\<close> leaves the loop.
\<close>

fun disconnect_each :: "transport \<Rightarrow> nat list \<Rightarrow> system \<Rightarrow> (error + unit) \<times> system" where
  "disconnect_each tr [] s = (Inr (), s)"
| "disconnect_each tr (dev # devs) s =
     (case device_disconnect tr dev s of
        (Inl e, s1) \<Rightarrow> (Inl e, s1)
      | (Inr _, s1) \<Rightarrow> disconnect_each tr devs s1)"

definition disconnect_all :: "transport \<Rightarrow> system \<Rightarrow> (error + unit) \<times> system" where
  "disconnect_all tr s = disconnect_each tr (map snd (managed_devices s)) s"

subsection \<open>Sequences of calls\<close>

text \<open>
  The operations of the manager and of its devices, as a caller may issue them one after
  the other; the state after an operation is kept whether or not it raised.
\<close>

datatype operation =
    DoDiscover rat
  | DoConnect target rat
  | DoDisconnectAll
  | DoDeviceConnect nat rat
  | DoDeviceDisconnect nat
  | DoIsConnected nat
  | DoSetHighSpeed nat
  | DoSetNightMode nat
  | DoTurnOff nat
  | DoReadState nat

fun perform :: "transport \<Rightarrow> operation \<Rightarrow> system \<Rightarrow> system" where
  "perform tr (DoDiscover t) s = snd (manager_discover tr t s)"
| "perform tr (DoConnect tgt t) s = snd (manager_connect tr tgt t s)"
| "perform tr DoDisconnectAll s = snd (disconnect_all tr s)"
| "perform tr (DoDeviceConnect d t) s = snd (device_connect tr d t s)"
| "perform tr (DoDeviceDisconnect d) s = snd (device_disconnect tr d s)"
| "perform tr (DoIsConnected d) s = snd (is_connected tr d s)"
| "perform tr (DoSetHighSpeed d) s = snd (set_high_speed tr d s)"
| "perform tr (DoSetNightMode d) s = snd (set_night_mode tr d s)"
| "perform tr (DoTurnOff d) s = snd (turn_off tr d s)"
| "perform tr (DoReadState d) s = snd (read_state tr d s)"

definition perform_all :: "transport \<Rightarrow> operation list \<Rightarrow> system \<Rightarrow> system" where
  "perform_all tr ops s = fold (perform tr) ops s"

text \<open>Two transports to run the code on: one where every call succeeds, one where every call raises.\<close>

definition transport_up :: "bytes \<Rightarrow> transport" where
  "transport_up reply =
     \<lparr>discover_reply = (\<lambda>_ _. Inr []),
      connect_reply = (\<lambda>_ _ _. None),
      start_notify_reply = (\<lambda>_ _. None),
      disconnect_reply = (\<lambda>_ _. None),
      is_connected_reply = (\<lambda>_ _. Inr True),
      write_reply = (\<lambda>_ _ _. None),
      read_reply = (\<lambda>_ _. Inr reply)\<rparr>"

definition transport_down :: transport where
  "transport_down =
     \<lparr>discover_reply = (\<lambda>_ _. Inl TransportError),
      connect_reply = (\<lambda>_ _ _. Some TransportError),
      start_notify_reply = (\<lambda>_ _. Some TransportError),
      disconnect_reply = (\<lambda>_ _. Some TransportError),
      is_connected_reply = (\<lambda>_ _. Inl TransportError),
      write_reply = (\<lambda>_ _ _. Some TransportError),
      read_reply = (\<lambda>_ _. Inl TransportError)\<rparr>"

subsection \<open>Sample payloads\<close>

text \<open>
  A state message of 43 bytes: the marker, byte 10 set to 1, byte 26 set to 50 (0x32),
  every other byte zero; and the same message cut behind byte 41.
\<close>

definition sample_state_msg :: bytes where
  "sample_state_msg =
     [0xBE, 0xEF, 0, 0, 0, 0, 0, 0, 0, 0,
      1, 0, 0, 0, 0, 0, 0, 0, 0, 0,
      0, 0, 0, 0, 0, 0, 0x32, 0, 0, 0,
      0, 0, 0, 0, 0, 0, 0, 0, 0, 0,
      0, 0, 0]"

definition short_state_msg :: bytes where
  "short_state_msg = take 42 sample_state_msg"

subsection \<open>Notions for the statements\<close>

text \<open>The events that write or read a characteristic.\<close>

definition is_io :: "event \<Rightarrow> bool" where
  "is_io ev = (case ev of WriteGattChar _ _ _ _ \<Rightarrow> True | ReadGattChar _ _ _ \<Rightarrow> True | _ \<Rightarrow> False)"

text \<open>
  The disconnect calls for a list of devices, and what the transport answers to the
  \<open>j\<close>-th of them when those before it have been made.
\<close>

definition disconnects :: "system \<Rightarrow> nat list \<Rightarrow> event list" where
  "disconnects s devs = map (\<lambda>dev. ClientDisconnect (client (objects s dev))) devs"

definition disconnect_answer :: "transport \<Rightarrow> system \<Rightarrow> nat list \<Rightarrow> nat \<Rightarrow> error option" where
  "disconnect_answer tr s devs j =
     disconnect_reply tr (trace s @ disconnects s (take j devs)) (client (objects s (devs ! j)))"

text \<open>A transport on which everything succeeds but disconnecting, and one that reports the link as lost.\<close>

definition transport_keeps_open :: "bytes \<Rightarrow> transport" where
  "transport_keeps_open reply =
     (transport_up reply)\<lparr>disconnect_reply := (\<lambda>_ _. Some TransportError)\<rparr>"

definition transport_link_lost :: "bytes \<Rightarrow> transport" where
  "transport_link_lost reply =
     (transport_up reply)\<lparr>is_connected_reply := (\<lambda>_ _. Inr False)\<rparr>"

subsection \<open>Sample sessions\<close>

definition hci0 :: str where
  "hci0 = str_of ''hci0''"

definition living_room :: str where
  "living_room = str_of ''AA:BB:CC:DD:EE:FF''"

definition bedroom :: str where
  "bedroom = str_of ''AA:BB:CC:DD:EE:00''"

text \<open>A device that was constructed and never connected.\<close>

definition unconnected_session :: system where
  "unconnected_session = snd (device_init (Address living_room) hci0 (manager_init hci0))"

text \<open>A manager after one successful \<^verbatim>\<open>connect\<close>, and after a second one to another address.\<close>

definition connected_session :: system where
  "connected_session =
     snd (manager_connect (transport_up sample_state_msg) (Address living_room) 5 (manager_init hci0))"

definition two_sessions :: system where
  "two_sessions =
     snd (manager_connect (transport_up sample_state_msg) (Address bedroom) 5 connected_session)"

subsection \<open>Sample advertisements\<close>

definition adv_living_room :: BLEDevice where
  "adv_living_room =
     \<lparr>ble_address = str_of ''AA:BB:CC:DD:EE:FF'',
      ble_name = Some (str_of ''PRNAQaq Living Room''),
      ble_rssi = - 60\<rparr>"

definition adv_not_leading :: BLEDevice where
  "adv_not_leading =
     \<lparr>ble_address = str_of ''AA:BB:CC:DD:EE:FF'',
      ble_name = Some (str_of ''xPRNAQaq''),
      ble_rssi = - 60\<rparr>"

definition adv_two_rooms :: BLEDevice where
  "adv_two_rooms =
     \<lparr>ble_address = str_of ''AA:BB:CC:DD:EE:FF'',
      ble_name = Some (str_of ''PRNAQaq A PRNAQaq B''),
      ble_rssi = - 60\<rparr>"

definition adv_nested :: BLEDevice where
  "adv_nested =
     \<lparr>ble_address = str_of ''AA:BB:CC:DD:EE:FF'',
      ble_name = Some (str_of ''PRNAQaqPRNAPRNAQaqQaq''),
      ble_rssi = - 60\<rparr>"

section \<open>Properties\<close>

lemma int_truediv10_div: "int_truediv10 b = int (b div 10)"
proof -
  have "\<lfloor>(of_nat b :: rat) / of_nat 10\<rfloor> = of_nat (b div 10)"
    by (rule floor_divide_of_nat_eq)
  then show ?thesis by (simp add: int_truediv10_def)
qed

lemma bool_of_unat: "bool_of (unat w) = (w \<noteq> 0)"
  by (simp add: bool_of_def unat_gt_0)

lemma after_Inr [simp]: "after (Inr v) f = f v"
  by (simp add: after_def)

lemma after_Inl [simp]: "after (Inl e) f = Inl e"
  by (simp add: after_def)

lemma getitem_in [simp]: "i < length data \<Longrightarrow> getitem data i = Inr (unat (data ! i))"
  by (simp add: getitem_def)

lemma getitem_out [simp]: "length data \<le> i \<Longrightarrow> getitem data i = Inl IndexError"
  by (simp add: getitem_def)

lemma parse_state_no_marker: "take 2 data \<noteq> STATE_MSG_PREFIX \<Longrightarrow> parse_state data = Inr None"
  by (simp add: parse_state_def)

lemma parse_state_long:
  assumes "take 2 data = STATE_MSG_PREFIX" and "43 \<le> length data"
  shows "parse_state data = Inr (Some \<lparr>
           speed_locked = int (unat (data ! 26) div 10),
           speed_in = int (unat (data ! 30) div 10),
           speed_out = int (unat (data ! 34) div 10),
           auto_mode = (data ! 20 \<noteq> 0),
           night_mode = (data ! 16 \<noteq> 0),
           flows_locked = (data ! 22 \<noteq> 0),
           is_on = (data ! 10 \<noteq> 0),
           mini_heating_enabled = (data ! 14 \<noteq> 0),
           winter_mode_enabled = (data ! 42 \<noteq> 0),
           is_input_fan_on = (data ! 28 \<noteq> 0),
           is_output_fan_on = (data ! 32 \<noteq> 0)\<rparr>)"
  using assms by (simp add: parse_state_def int_truediv10_div bool_of_unat)

lemma parse_state_short:
  assumes "take 2 data = STATE_MSG_PREFIX" and "length data \<le> 42"
  shows "parse_state data = Inl IndexError"
proof -
  have m: "\<not> \<not> take 2 data = STATE_MSG_PREFIX" using assms(1) by simp
  show ?thesis
    unfolding parse_state_def if_not_P [OF m]
    using assms(2) by (simp add: getitem_def after_def)
qed

subsection \<open>Strings\<close>

lemma PREFIX_unfold: "PRANA_DEVICE_NAME_PREFIX = [80, 82, 78, 65, 81, 97, 113]"
  by (simp add: PRANA_DEVICE_NAME_PREFIX_def str_of_def)

lemma is_prana_device_iff:
  "is_prana_device dev \<longleftrightarrow>
     (\<exists>n. ble_name dev = Some n \<and> n \<noteq> [] \<and> prefix PRANA_DEVICE_NAME_PREFIX n)"
  by (simp add: is_prana_device_def startswith_def split: option.splits)

lemma suffix_last: "suffix ys xs \<Longrightarrow> ys \<noteq> [] \<Longrightarrow> last ys = last xs"
  by (auto simp: suffix_def)

lemma strip_ends:
  "strip s = [] \<or> (\<not> isspace (hd (strip s)) \<and> \<not> isspace (last (strip s)))"
proof (cases "strip s = []")
  case True
  then show ?thesis by simp
next
  case False
  define zs where "zs = dropWhile isspace s"
  define ys where "ys = dropWhile isspace (rev zs)"
  have s: "strip s = rev ys" by (simp add: strip_def ys_def zs_def)
  with False have ys: "ys \<noteq> []" by simp
  then have zs: "zs \<noteq> []" by (auto simp: ys_def)
  have "\<not> isspace (hd ys)" using ys unfolding ys_def by (rule hd_dropWhile)
  then have l: "\<not> isspace (last (strip s))" using ys by (simp add: s last_rev)
  have "suffix ys (rev zs)" unfolding ys_def by (rule suffix_dropWhile)
  then have "last ys = last (rev zs)" using ys by (rule suffix_last)
  then have "hd (strip s) = hd zs" using ys zs by (simp add: s hd_rev last_rev)
  moreover have "\<not> isspace (hd zs)" using zs unfolding zs_def by (rule hd_dropWhile)
  ultimately show ?thesis using l by simp
qed

lemma sublist_strip: "sublist (strip s) s"
proof -
  have "suffix (dropWhile isspace (rev (dropWhile isspace s))) (rev (dropWhile isspace s))"
    by (rule suffix_dropWhile)
  then have "prefix (strip s) (dropWhile isspace s)"
    by (simp add: strip_def suffix_to_prefix)
  then have "sublist (strip s) (dropWhile isspace s)" by (rule prefix_imp_sublist)
  moreover have "sublist (dropWhile isspace s) s"
    by (rule suffix_imp_sublist [OF suffix_dropWhile])
  ultimately show ?thesis by (rule sublist_order.order_trans)
qed

lemma replace_empty_absent:
  "\<not> sublist old s \<Longrightarrow> replace_empty old s = s"
proof (induction s)
  case Nil
  then show ?case by simp
next
  case (Cons c cs)
  then have "\<not> prefix old (c # cs)" and "\<not> sublist old cs"
    by (auto simp: sublist_Cons_right)
  with Cons.IH show ?case by simp
qed

lemma replace_empty_leading:
  "old \<noteq> [] \<Longrightarrow> replace_empty old (old @ t) = replace_empty old t"
  by (cases old) simp_all

subsection \<open>Removal of all occurrences\<close>

lemma covered_iff:
  "covered old s i \<longleftrightarrow> (\<exists>j\<le>i. i < j + length old \<and> occurs_at old s j)"
proof -
  have "set [0 ..< Suc i] = {j. j \<le> i}" by auto
  then show ?thesis unfolding covered_def list_ex_iff by blast
qed

lemma take_eq_prefix: "take (length old) s = old \<longleftrightarrow> prefix old s"
proof
  assume "take (length old) s = old"
  then have "old = take (length old) s" by simp
  then show "prefix old s" using take_is_prefix [of "length old" s] by simp
next
  assume "prefix old s"
  then show "take (length old) s = old" by (auto simp: prefix_def)
qed

lemma occurs_at_0: "occurs_at old s 0 \<longleftrightarrow> old \<noteq> [] \<and> prefix old s"
  by (simp add: occurs_at_def take_eq_prefix)

lemma occurs_at_Suc: "occurs_at old (c # cs) (Suc j) = occurs_at old cs j"
  by (simp add: occurs_at_def)

lemma occurs_at_nth:
  assumes "occurs_at old s j"
  shows "j < length s \<and> s ! j = hd old"
proof -
  from assms have o: "old \<noteq> []" and t: "take (length old) (drop j s) = old"
    by (simp_all add: occurs_at_def)
  from o t have d: "drop j s \<noteq> []" by auto
  then have j: "j < length s" by simp
  from o have "0 < length old" by simp
  then have "hd (take (length old) (drop j s)) = hd (drop j s)" by (rule hd_take)
  with t have "hd old = hd (drop j s)" by simp
  with j show ?thesis by (simp add: hd_drop_conv_nth)
qed

lemma covered_Cons:
  assumes "\<not> occurs_at old (c # cs) 0"
  shows "covered old (c # cs) (Suc i) = covered old cs i"
proof
  assume "covered old (c # cs) (Suc i)"
  then obtain j where j: "j \<le> Suc i" "Suc i < j + length old" "occurs_at old (c # cs) j"
    by (auto simp: covered_iff)
  with assms obtain k where k: "j = Suc k" by (cases j) auto
  with j show "covered old cs i" by (auto simp: covered_iff occurs_at_Suc)
next
  assume "covered old cs i"
  then obtain k where "k \<le> i" "i < k + length old" "occurs_at old cs k"
    by (auto simp: covered_iff)
  then have "Suc k \<le> Suc i \<and> Suc i < Suc k + length old \<and> occurs_at old (c # cs) (Suc k)"
    by (simp add: occurs_at_Suc)
  then show "covered old (c # cs) (Suc i)" unfolding covered_iff by blast
qed

lemma not_covered_0: "\<not> occurs_at old s 0 \<Longrightarrow> \<not> covered old s 0"
  by (simp add: covered_iff)

lemma remove_all_occurrences_Cons:
  assumes "\<not> occurs_at old (c # cs) 0"
  shows "remove_all_occurrences old (c # cs) = c # remove_all_occurrences old cs"
proof -
  have u: "[0 ..< length (c # cs)] = 0 # map Suc [0 ..< length cs]"
    by (simp add: upt_conv_Cons map_Suc_upt del: upt_Suc)
  have f: "filter (\<lambda>i. \<not> covered old (c # cs) i) (map Suc [0 ..< length cs])
      = map Suc (filter (\<lambda>i. \<not> covered old cs i) [0 ..< length cs])"
    by (simp add: filter_map o_def covered_Cons [OF assms])
  show ?thesis
    unfolding remove_all_occurrences_def u
    by (simp add: not_covered_0 [OF assms] f o_def del: upt_Suc)
qed

lemma occurs_at_behind:
  "occurs_at old (old @ t) (length old + k) = occurs_at old t k"
  by (simp add: occurs_at_def)

lemma no_overlap:
  assumes "old = a # r" and "a \<notin> set r" and "0 < j" and "j < length old"
  shows "\<not> occurs_at old (old @ t) j"
proof
  assume "occurs_at old (old @ t) j"
  then have "(old @ t) ! j = hd old" by (simp add: occurs_at_nth)
  moreover have "(old @ t) ! j = old ! j" using assms(4) by (simp add: nth_append)
  ultimately have "old ! j = a" by (simp add: assms(1))
  moreover from assms(1,3,4) have "old ! j \<in> set r" by (cases j) auto
  ultimately show False using assms(2) by simp
qed

lemma covered_leading:
  assumes "old \<noteq> []" and "i < length old"
  shows "covered old (old @ t) i"
proof -
  have "occurs_at old (old @ t) 0" using assms(1) by (simp add: occurs_at_0)
  with assms(2) show ?thesis unfolding covered_iff by auto
qed

lemma covered_behind:
  assumes "old = a # r" and "a \<notin> set r"
  shows "covered old (old @ t) (i + length old) = covered old t i"
proof
  assume "covered old (old @ t) (i + length old)"
  then obtain j where j: "j \<le> i + length old" "i + length old < j + length old"
      "occurs_at old (old @ t) j"
    by (auto simp: covered_iff)
  then have "0 < j" by simp
  have "length old \<le> j"
  proof (rule ccontr)
    assume "\<not> length old \<le> j"
    then have "j < length old" by simp
    with \<open>0 < j\<close> have "\<not> occurs_at old (old @ t) j" by (rule no_overlap [OF assms])
    with j(3) show False by simp
  qed
  then obtain k where k: "j = length old + k" using le_Suc_ex by blast
  with j have "k \<le> i \<and> i < k + length old \<and> occurs_at old t k"
    by (simp add: occurs_at_behind)
  then show "covered old t i" unfolding covered_iff by blast
next
  assume "covered old t i"
  then obtain k where k: "k \<le> i" "i < k + length old" "occurs_at old t k"
    by (auto simp: covered_iff)
  then have "length old + k \<le> i + length old \<and> i + length old < length old + k + length old
      \<and> occurs_at old (old @ t) (length old + k)"
    by (simp add: occurs_at_behind)
  then show "covered old (old @ t) (i + length old)" unfolding covered_iff by blast
qed

lemma remove_all_occurrences_leading:
  assumes "old = a # r" and "a \<notin> set r"
  shows "remove_all_occurrences old (old @ t) = remove_all_occurrences old t"
proof -
  have o: "old \<noteq> []" using assms(1) by simp
  have u: "[0 ..< length (old @ t)]
      = [0 ..< length old] @ map (\<lambda>i. i + length old) [0 ..< length t]"
  proof -
    have "[0 ..< length old + length t] = [0 ..< length old] @ [length old ..< length old + length t]"
      by (rule upt_add_eq_append) simp
    moreover have "map (\<lambda>i. i + length old) [0 ..< length t] = [length old ..< length t + length old]"
      by (rule map_add_upt)
    ultimately show ?thesis by (simp only: length_append add.commute)
  qed
  have f1: "filter (\<lambda>i. \<not> covered old (old @ t) i) [0 ..< length old] = []"
    by (simp add: filter_empty_conv covered_leading [OF o])
  have f2: "filter (\<lambda>i. \<not> covered old (old @ t) i) (map (\<lambda>i. i + length old) [0 ..< length t])
      = map (\<lambda>i. i + length old) (filter (\<lambda>i. \<not> covered old t i) [0 ..< length t])"
    by (simp add: filter_map o_def covered_behind [OF assms])
  show ?thesis
    unfolding remove_all_occurrences_def u filter_append f1 f2
    by (simp add: o_def nth_append)
qed

lemma replace_empty_removes_all:
  "old = a # r \<Longrightarrow> a \<notin> set r \<Longrightarrow> replace_empty old s = remove_all_occurrences old s"
proof (induction old s rule: replace_empty.induct)
  case (1 old)
  show ?case by (simp add: remove_all_occurrences_def)
next
  case (2 old c cs)
  show ?case
  proof (cases "old \<noteq> [] \<and> prefix old (c # cs)")
    case True
    then obtain t where t: "c # cs = old @ t" by (auto simp: prefix_def)
    then have d: "drop (length old) (c # cs) = t" by simp
    from True "2.IH"(1) "2.prems" d
    have "replace_empty old t = remove_all_occurrences old t" by simp
    moreover from True d have "replace_empty old (c # cs) = replace_empty old t" by simp
    moreover have "remove_all_occurrences old (c # cs) = remove_all_occurrences old t"
      unfolding t using "2.prems" by (rule remove_all_occurrences_leading)
    ultimately show ?thesis by simp
  next
    case False
    then have n: "\<not> occurs_at old (c # cs) 0" by (simp add: occurs_at_0)
    from False "2.IH"(2) "2.prems"
    have "replace_empty old cs = remove_all_occurrences old cs" by simp
    moreover from False have "replace_empty old (c # cs) = c # replace_empty old cs"
      by (auto simp del: drop_Suc_Cons)
    ultimately show ?thesis by (simp add: remove_all_occurrences_Cons [OF n])
  qed
qed

subsection \<open>The operations on the transport\<close>

lemma call_simps [simp]:
  "fst (call ev a s) = a" "trace (snd (call ev a s)) = trace s @ [ev]"
  "objects (snd (call ev a s)) = objects s"
  "managed_devices (snd (call ev a s)) = managed_devices s"
  "fresh (snd (call ev a s)) = fresh s"
  "ble_interface (snd (call ev a s)) = ble_interface s"
  by (simp_all add: call_def)

lemma raised_simps [simp]:
  "raised None = Inr ()" "raised (Some e) = Inl e"
  by (simp_all add: raised_def)


lemma send_command_write_raises:
  assumes "write_reply tr (trace s) (client (objects s self)) cmd = Some e"
  shows "send_command tr self cmd expect_reply s =
     (Inl e, s\<lparr>trace := trace s @
        [WriteGattChar (client (objects s self)) CONTROL_RW_CHARACTERISTIC_UUID cmd True]\<rparr>)"
  using assms by (simp add: send_command_def call_def)

text \<open>A command on a device that is not connected.\<close>

lemma is_connected_trace:
  "filter is_io (trace (snd (is_connected tr self s))) = filter is_io (trace s)"
  by (simp add: is_connected_def call_def is_io_def)

lemma verify_not_connected:
  assumes "fst (is_connected tr self s) = Inr False"
  shows "verify_connected tr self s = (Inl RuntimeError, snd (is_connected tr self s))"
  using assms by (cases "is_connected tr self s") (simp add: verify_connected_def)

lemma verified_send_not_connected:
  assumes "fst (is_connected tr self s) = Inr False"
  shows "verified_send tr self cmd s = (Inl RuntimeError, snd (is_connected tr self s))"
  using assms by (simp add: verified_send_def verify_not_connected)

lemma read_state_not_connected:
  assumes "fst (is_connected tr self s) = Inr False"
  shows "read_state tr self s = (Inl RuntimeError, snd (is_connected tr self s))"
  using assms by (simp add: read_state_def verify_not_connected)


text \<open>What the operations leave unchanged.\<close>

lemma is_connected_frame [simp]:
  "managed_devices (snd (is_connected tr self s)) = managed_devices s"
  "objects (snd (is_connected tr self s)) = objects s"
  "fresh (snd (is_connected tr self s)) = fresh s"
  by (simp_all add: is_connected_def)

lemma verify_connected_frame [simp]:
  "managed_devices (snd (verify_connected tr self s)) = managed_devices s"
  "objects (snd (verify_connected tr self s)) = objects s"
  "fresh (snd (verify_connected tr self s)) = fresh s"
  by (simp_all add: verify_connected_def is_connected_def call_def split: sum.splits)

lemma send_command_frame [simp]:
  "managed_devices (snd (send_command tr self cmd er s)) = managed_devices s"
  "objects (snd (send_command tr self cmd er s)) = objects s"
  "fresh (snd (send_command tr self cmd er s)) = fresh s"
  by (simp_all add: send_command_def call_def split: sum.splits option.splits)

lemma verified_send_frame [simp]:
  "managed_devices (snd (verified_send tr self cmd s)) = managed_devices s"
proof (cases "verify_connected tr self s")
  case (Pair r s1)
  have m: "managed_devices s1 = managed_devices s"
    using verify_connected_frame(1) [of tr self s] by (simp add: Pair)
  show ?thesis
  proof (cases r)
    case (Inl e)
    with Pair m show ?thesis by (simp add: verified_send_def)
  next
    case (Inr u)
    have "managed_devices (snd (send_command tr self cmd False s1)) = managed_devices s1"
      by simp
    with Pair Inr m show ?thesis
      by (cases "send_command tr self cmd False s1") (auto simp: verified_send_def split: sum.splits)
  qed
qed

lemma read_state_frame [simp]:
  "managed_devices (snd (read_state tr self s)) = managed_devices s"
proof (cases "verify_connected tr self s")
  case (Pair r s1)
  have m: "managed_devices s1 = managed_devices s"
    using verify_connected_frame(1) [of tr self s] by (simp add: Pair)
  show ?thesis
  proof (cases r)
    case (Inl e)
    with Pair m show ?thesis by (simp add: read_state_def)
  next
    case (Inr u)
    have "managed_devices (snd (send_command tr self READ_STATE True s1)) = managed_devices s1"
      by simp
    with Pair Inr m show ?thesis
      by (cases "send_command tr self READ_STATE True s1")
         (auto simp: read_state_def split: sum.splits option.splits)
  qed
qed

lemma device_connect_frame [simp]:
  "managed_devices (snd (device_connect tr self t s)) = managed_devices s"
  "fresh (snd (device_connect tr self t s)) = fresh s"
  by (simp_all add: device_connect_def call_def Let_def split: sum.splits option.splits)

lemma device_disconnect_eq:
  "device_disconnect tr self s =
     (raised (disconnect_reply tr (trace s) (client (objects s self))),
      s\<lparr>trace := trace s @ [ClientDisconnect (client (objects s self))]\<rparr>)"
  by (simp add: device_disconnect_def call_def)

lemma disconnect_each_frame [simp]:
  "managed_devices (snd (disconnect_each tr devs s)) = managed_devices s"
  by (induction devs arbitrary: s)
     (simp_all add: device_disconnect_eq raised_def split: option.splits)

lemma manager_discover_frame [simp]:
  "managed_devices (snd (manager_discover tr t s)) = managed_devices s"
  by (simp add: manager_discover_def call_def split: sum.splits)

lemma device_init_Address:
  "device_init (Address a) iface s =
     (Inr (fresh s),
      s\<lparr>fresh := Suc (Suc (fresh s)),
        trace := trace s @ [BleakClient (Suc (fresh s)) a iface],
        objects := (objects s)
          (fresh s := \<lparr>device_address = a, client = Suc (fresh s), has_connect_attempts = False\<rparr>)\<rparr>)"
  by (simp add: device_init_def Let_def)

lemma manager_connect_managed:
  assumes "addr_for_target tgt = Inr a"
  shows "managed_devices (snd (manager_connect tr tgt t s)) =
     (case map_of (managed_devices s) a of
        Some d \<Rightarrow> managed_devices s
      | None \<Rightarrow> AList.update a (fresh s) (managed_devices s))"
proof (cases "map_of (managed_devices s) a")
  case None
  define s1 where "s1 = (snd (device_init (Address a) (ble_interface s) s))
      \<lparr>managed_devices := AList.update a (fresh s) (managed_devices s)\<rparr>"
  have "manager_connect tr tgt t s =
      (case device_connect tr (fresh s) t s1 of
         (Inl e, s3) \<Rightarrow> (Inl e, s3) | (Inr _, s3) \<Rightarrow> (Inr (fresh s), s3))"
    using assms None by (simp add: manager_connect_def device_init_Address s1_def)
  moreover have "managed_devices (snd (device_connect tr (fresh s) t s1)) = managed_devices s1"
    by simp
  ultimately have "managed_devices (snd (manager_connect tr tgt t s)) = managed_devices s1"
    by (cases "device_connect tr (fresh s) t s1") (auto split: sum.splits)
  with None show ?thesis by (simp add: s1_def)
next
  case (Some d)
  have "manager_connect tr tgt t s =
      (case device_connect tr d t s of
         (Inl e, s3) \<Rightarrow> (Inl e, s3) | (Inr _, s3) \<Rightarrow> (Inr d, s3))"
    using assms Some by (simp add: manager_connect_def)
  moreover have "managed_devices (snd (device_connect tr d t s)) = managed_devices s"
    by simp
  ultimately have "managed_devices (snd (manager_connect tr tgt t s)) = managed_devices s"
    by (cases "device_connect tr d t s") (auto split: sum.splits)
  with Some show ?thesis by simp
qed

lemma manager_connect_invalid:
  "addr_for_target tgt = Inl e \<Longrightarrow> manager_connect tr tgt t s = (Inl e, s)"
  by (simp add: manager_connect_def)

lemma manager_connect_returns:
  assumes "addr_for_target tgt = Inr a" and "manager_connect tr tgt t s = (Inr d, s')"
  shows "map_of (managed_devices s') a = Some d"
proof (cases "map_of (managed_devices s) a")
  case None
  define s1 where "s1 = (snd (device_init (Address a) (ble_interface s) s))
      \<lparr>managed_devices := AList.update a (fresh s) (managed_devices s)\<rparr>"
  have "manager_connect tr tgt t s =
      (case device_connect tr (fresh s) t s1 of
         (Inl e, s3) \<Rightarrow> (Inl e, s3) | (Inr _, s3) \<Rightarrow> (Inr (fresh s), s3))"
    using assms(1) None by (simp add: manager_connect_def device_init_Address s1_def)
  with assms(2) have "d = fresh s"
    by (cases "device_connect tr (fresh s) t s1") (auto split: sum.splits)
  moreover have "managed_devices s' = AList.update a (fresh s) (managed_devices s)"
    using manager_connect_managed [OF assms(1), of tr t s] assms(2) None by simp
  ultimately show ?thesis by (simp add: update_conv')
next
  case (Some d0)
  have "manager_connect tr tgt t s =
      (case device_connect tr d0 t s of
         (Inl e, s3) \<Rightarrow> (Inl e, s3) | (Inr _, s3) \<Rightarrow> (Inr d0, s3))"
    using assms(1) Some by (simp add: manager_connect_def)
  with assms(2) have "d = d0"
    by (cases "device_connect tr d0 t s") (auto split: sum.splits)
  moreover have "managed_devices s' = managed_devices s"
    using manager_connect_managed [OF assms(1), of tr t s] assms(2) Some by simp
  ultimately show ?thesis using Some by simp
qed

lemma manager_connect_keeps:
  assumes "map_of (managed_devices s) a = Some d"
  shows "map_of (managed_devices (snd (manager_connect tr tgt t s))) a = Some d"
proof (cases "addr_for_target tgt")
  case (Inl e)
  with assms show ?thesis by (simp add: manager_connect_invalid)
next
  case (Inr b)
  show ?thesis
  proof (cases "map_of (managed_devices s) b")
    case None
    with assms have "b \<noteq> a" by auto
    with assms None show ?thesis
      by (simp add: manager_connect_managed [OF Inr] update_conv')
  next
    case (Some d0)
    with assms show ?thesis by (simp add: manager_connect_managed [OF Inr])
  qed
qed

lemma manager_connect_distinct:
  assumes "distinct (map fst (managed_devices s))"
  shows "distinct (map fst (managed_devices (snd (manager_connect tr tgt t s))))"
proof (cases "addr_for_target tgt")
  case (Inl e)
  with assms show ?thesis by (simp add: manager_connect_invalid)
next
  case (Inr b)
  with assms show ?thesis
    by (simp add: manager_connect_managed [OF Inr] distinct_update split: option.splits)
qed

lemma perform_keeps:
  "map_of (managed_devices s) a = Some d \<Longrightarrow>
   map_of (managed_devices (perform tr op s)) a = Some d"
  by (cases op)
     (simp_all add: manager_connect_keeps disconnect_all_def set_high_speed_def
        set_night_mode_def turn_off_def device_disconnect_eq)

lemma perform_distinct:
  "distinct (map fst (managed_devices s)) \<Longrightarrow>
   distinct (map fst (managed_devices (perform tr op s)))"
  by (cases op)
     (simp_all add: manager_connect_distinct disconnect_all_def set_high_speed_def
        set_night_mode_def turn_off_def device_disconnect_eq)

lemma perform_all_keeps:
  "map_of (managed_devices s) a = Some d \<Longrightarrow>
   map_of (managed_devices (perform_all tr ops s)) a = Some d"
  unfolding perform_all_def
  by (induction ops arbitrary: s) (simp_all add: perform_keeps)

lemma perform_all_distinct:
  "distinct (map fst (managed_devices s)) \<Longrightarrow>
   distinct (map fst (managed_devices (perform_all tr ops s)))"
  unfolding perform_all_def
  by (induction ops arbitrary: s) (simp_all add: perform_distinct)


lemma device_connect_raises:
  assumes "connect_reply tr (trace s) (client (objects s self)) t = Some e"
  shows "device_connect tr self t s =
     (Inl e, s\<lparr>trace := trace s @ [ClientConnect (client (objects s self)) t]\<rparr>)"
  using assms by (simp add: device_connect_def call_def)

lemma device_connect_opens:
  assumes "connect_reply tr (trace s) (client (objects s self)) t = None"
  shows "device_connect tr self t s =
     (raised (start_notify_reply tr (trace s @ [ClientConnect (client (objects s self)) t])
                (client (objects s self))),
      s\<lparr>trace := trace s @
           [ClientConnect (client (objects s self)) t,
            StartNotify (client (objects s self)) CONTROL_RW_CHARACTERISTIC_UUID self],
        objects := (objects s)(self := (objects s self)\<lparr>has_connect_attempts := True\<rparr>)\<rparr>)"
  using assms by (simp add: device_connect_def call_def Let_def)

lemma disconnect_each_all:
  "(\<forall>j<length devs. disconnect_answer tr s devs j = None) \<Longrightarrow>
   disconnect_each tr devs s = (Inr (), s\<lparr>trace := trace s @ disconnects s devs\<rparr>)"
proof (induction devs arbitrary: s)
  case Nil
  show ?case by (simp add: disconnects_def)
next
  case (Cons d devs)
  define s1 where "s1 = s\<lparr>trace := trace s @ [ClientDisconnect (client (objects s d))]\<rparr>"
  from Cons.prems have "disconnect_answer tr s (d # devs) 0 = None" by blast
  then have 0: "disconnect_reply tr (trace s) (client (objects s d)) = None"
    by (simp add: disconnect_answer_def disconnects_def)
  have "disconnect_answer tr s1 devs j = None" if "j < length devs" for j
  proof -
    from that Cons.prems have "disconnect_answer tr s (d # devs) (Suc j) = None" by auto
    then show ?thesis by (simp add: disconnect_answer_def disconnects_def s1_def)
  qed
  then have "disconnect_each tr devs s1 = (Inr (), s1\<lparr>trace := trace s1 @ disconnects s1 devs\<rparr>)"
    by (simp add: Cons.IH)
  with 0 show ?case
    by (simp add: device_disconnect_eq s1_def disconnects_def)
qed

lemma disconnect_each_stops:
  "k < length devs \<Longrightarrow> (\<forall>j<k. disconnect_answer tr s devs j = None) \<Longrightarrow>
   disconnect_answer tr s devs k = Some e \<Longrightarrow>
   disconnect_each tr devs s = (Inl e, s\<lparr>trace := trace s @ disconnects s (take (Suc k) devs)\<rparr>)"
proof (induction devs arbitrary: s k)
  case Nil
  then show ?case by simp
next
  case (Cons d devs)
  define s1 where "s1 = s\<lparr>trace := trace s @ [ClientDisconnect (client (objects s d))]\<rparr>"
  show ?case
  proof (cases k)
    case 0
    with Cons.prems(3) have "disconnect_reply tr (trace s) (client (objects s d)) = Some e"
      by (simp add: disconnect_answer_def disconnects_def)
    with 0 show ?thesis by (simp add: device_disconnect_eq disconnects_def)
  next
    case (Suc k')
    with Cons.prems(2) have "disconnect_answer tr s (d # devs) 0 = None" by blast
    then have 0: "disconnect_reply tr (trace s) (client (objects s d)) = None"
      by (simp add: disconnect_answer_def disconnects_def)
    have a: "disconnect_answer tr s1 devs j = disconnect_answer tr s (d # devs) (Suc j)" for j
      by (simp add: disconnect_answer_def disconnects_def s1_def)
    from Cons.prems(1) Suc have 1: "k' < length devs" by simp
    from Cons.prems(2) Suc have 2: "\<forall>j<k'. disconnect_answer tr s1 devs j = None"
      by (simp add: a)
    from Cons.prems(3) Suc have 3: "disconnect_answer tr s1 devs k' = Some e"
      by (simp add: a)
    from Cons.IH [OF 1 2 3] 0 Suc show ?thesis
      by (simp add: device_disconnect_eq s1_def disconnects_def)
  qed
qed

subsection \<open>The decoder on every payload\<close>

text \<open>
  C1: a payload whose first two bytes are not \<open>0xBE 0xEF\<close> decodes to \<^verbatim>\<open>None\<close>. A
  payload that starts with the marker and has at least 43 bytes decodes to a state whose
  boolean fields say whether the bytes at offsets 10 (is_on), 14 (mini_heating_enabled),
  16 (night_mode), 20 (auto_mode), 22 (flows_locked), 28 (is_input_fan_on),
  32 (is_output_fan_on) and 42 (winter_mode_enabled) are non-zero, and whose speeds are
  the bytes at offsets 26 (speed_locked), 30 (speed_in) and 34 (speed_out) divided by 10
  in the integers.
\<close>

theorem parse_state_decodes:
  "(take 2 data \<noteq> STATE_MSG_PREFIX \<longrightarrow> parse_state data = Inr None) \<and>
   (take 2 data = STATE_MSG_PREFIX \<and> 43 \<le> length data \<longrightarrow>
      (\<exists>s. parse_state data = Inr (Some s) \<and>
         is_on s = (data ! 10 \<noteq> 0) \<and>
         mini_heating_enabled s = (data ! 14 \<noteq> 0) \<and>
         night_mode s = (data ! 16 \<noteq> 0) \<and>
         auto_mode s = (data ! 20 \<noteq> 0) \<and>
         flows_locked s = (data ! 22 \<noteq> 0) \<and>
         is_input_fan_on s = (data ! 28 \<noteq> 0) \<and>
         is_output_fan_on s = (data ! 32 \<noteq> 0) \<and>
         winter_mode_enabled s = (data ! 42 \<noteq> 0) \<and>
         speed_locked s = int (unat (data ! 26) div 10) \<and>
         speed_in s = int (unat (data ! 30) div 10) \<and>
         speed_out s = int (unat (data ! 34) div 10)))"
proof (intro conjI impI)
  assume "take 2 data \<noteq> STATE_MSG_PREFIX"
  then show "parse_state data = Inr None" by (rule parse_state_no_marker)
next
  assume "take 2 data = STATE_MSG_PREFIX \<and> 43 \<le> length data"
  then have "parse_state data = Inr (Some \<lparr>
           speed_locked = int (unat (data ! 26) div 10),
           speed_in = int (unat (data ! 30) div 10),
           speed_out = int (unat (data ! 34) div 10),
           auto_mode = (data ! 20 \<noteq> 0),
           night_mode = (data ! 16 \<noteq> 0),
           flows_locked = (data ! 22 \<noteq> 0),
           is_on = (data ! 10 \<noteq> 0),
           mini_heating_enabled = (data ! 14 \<noteq> 0),
           winter_mode_enabled = (data ! 42 \<noteq> 0),
           is_input_fan_on = (data ! 28 \<noteq> 0),
           is_output_fan_on = (data ! 32 \<noteq> 0)\<rparr>)"
    by (simp add: parse_state_long)
  then show "\<exists>s. parse_state data = Inr (Some s) \<and>
         is_on s = (data ! 10 \<noteq> 0) \<and>
         mini_heating_enabled s = (data ! 14 \<noteq> 0) \<and>
         night_mode s = (data ! 16 \<noteq> 0) \<and>
         auto_mode s = (data ! 20 \<noteq> 0) \<and>
         flows_locked s = (data ! 22 \<noteq> 0) \<and>
         is_input_fan_on s = (data ! 28 \<noteq> 0) \<and>
         is_output_fan_on s = (data ! 32 \<noteq> 0) \<and>
         winter_mode_enabled s = (data ! 42 \<noteq> 0) \<and>
         speed_locked s = int (unat (data ! 26) div 10) \<and>
         speed_in s = int (unat (data ! 30) div 10) \<and>
         speed_out s = int (unat (data ! 34) div 10)"
    by simp
qed

text \<open>
  The theorem at the sample message (is_on set, locked speed 5, all else clear) and at
  a payload with another marker.
\<close>

theorem parse_state_decodes_witness:
  "take 2 [0xCA, 0xFE, 1] \<noteq> STATE_MSG_PREFIX \<and>
   parse_state [0xCA, 0xFE, 1] = Inr None \<and>
   take 2 sample_state_msg = STATE_MSG_PREFIX \<and> 43 \<le> length sample_state_msg \<and>
   (\<exists>s. parse_state sample_state_msg = Inr (Some s) \<and>
      is_on s \<and> \<not> mini_heating_enabled s \<and> \<not> night_mode s \<and> \<not> auto_mode s \<and>
      \<not> flows_locked s \<and> \<not> is_input_fan_on s \<and> \<not> is_output_fan_on s \<and>
      \<not> winter_mode_enabled s \<and> speed_locked s = 5 \<and> speed_in s = 0 \<and> speed_out s = 0)"
proof -
  have a: "take 2 [0xCA, 0xFE, 1] \<noteq> STATE_MSG_PREFIX"
    by (simp add: STATE_MSG_PREFIX_def)
  have b: "take 2 sample_state_msg = STATE_MSG_PREFIX \<and> 43 \<le> length sample_state_msg"
    by (simp add: STATE_MSG_PREFIX_def sample_state_msg_def)
  have c: "sample_state_msg ! 10 = 1" "sample_state_msg ! 14 = 0" "sample_state_msg ! 16 = 0"
    "sample_state_msg ! 20 = 0" "sample_state_msg ! 22 = 0" "sample_state_msg ! 28 = 0"
    "sample_state_msg ! 32 = 0" "sample_state_msg ! 42 = 0" "sample_state_msg ! 26 = 50"
    "sample_state_msg ! 30 = 0" "sample_state_msg ! 34 = 0"
    by (simp_all add: sample_state_msg_def)
  from a parse_state_decodes [of "[0xCA, 0xFE, 1]"]
  have "parse_state [0xCA, 0xFE, 1] = Inr None" by blast
  moreover from b parse_state_decodes [of sample_state_msg]
  have "\<exists>s. parse_state sample_state_msg = Inr (Some s) \<and>
      is_on s \<and> \<not> mini_heating_enabled s \<and> \<not> night_mode s \<and> \<not> auto_mode s \<and>
      \<not> flows_locked s \<and> \<not> is_input_fan_on s \<and> \<not> is_output_fan_on s \<and>
      \<not> winter_mode_enabled s \<and> speed_locked s = 5 \<and> speed_in s = 0 \<and> speed_out s = 0"
    unfolding c by simp
  ultimately show ?thesis using a b by blast
qed

text \<open>
  C10: a payload that starts with the marker \<open>0xBE 0xEF\<close> and has 42 bytes or fewer is
  decoded neither to \<^verbatim>\<open>None\<close> nor to a state: \<^verbatim>\<open>__parse_state\<close> raises
  \<^verbatim>\<open>IndexError\<close>. Among the payloads that start with the marker, the decoder returns
  exactly on those of at least 43 bytes.
\<close>

theorem parse_state_short_raises:
  "(take 2 data = STATE_MSG_PREFIX \<and> length data \<le> 42 \<longrightarrow> parse_state data = Inl IndexError) \<and>
   (take 2 data = STATE_MSG_PREFIX \<longrightarrow>
      ((\<exists>r. parse_state data = Inr r) \<longleftrightarrow> 43 \<le> length data))"
proof (intro conjI impI)
  assume "take 2 data = STATE_MSG_PREFIX \<and> length data \<le> 42"
  then show "parse_state data = Inl IndexError" by (simp add: parse_state_short)
next
  assume m: "take 2 data = STATE_MSG_PREFIX"
  show "(\<exists>r. parse_state data = Inr r) \<longleftrightarrow> 43 \<le> length data"
  proof (cases "43 \<le> length data")
    case True
    with m show ?thesis by (simp add: parse_state_long)
  next
    case False
    then have "length data \<le> 42" by simp
    with m have "parse_state data = Inl IndexError" by (rule parse_state_short)
    with False show ?thesis by simp
  qed
qed

text \<open>The theorem at the sample message without its last byte, and at the whole message.\<close>

theorem parse_state_short_raises_witness:
  "take 2 short_state_msg = STATE_MSG_PREFIX \<and> length short_state_msg \<le> 42 \<and>
   parse_state short_state_msg = Inl IndexError \<and>
   take 2 sample_state_msg = STATE_MSG_PREFIX \<and> 43 \<le> length sample_state_msg \<and>
   (\<exists>r. parse_state sample_state_msg = Inr r)"
proof -
  have a: "take 2 short_state_msg = STATE_MSG_PREFIX \<and> length short_state_msg \<le> 42"
    by (simp add: STATE_MSG_PREFIX_def short_state_msg_def sample_state_msg_def)
  have b: "take 2 sample_state_msg = STATE_MSG_PREFIX" "43 \<le> length sample_state_msg"
    by (simp_all add: STATE_MSG_PREFIX_def sample_state_msg_def)
  from a parse_state_short_raises [of short_state_msg]
  have "parse_state short_state_msg = Inl IndexError" by blast
  moreover from b parse_state_short_raises [of sample_state_msg]
  have "\<exists>r. parse_state sample_state_msg = Inr r" by blast
  ultimately show ?thesis using a b by blast
qed

subsection \<open>The advertisement filter and the friendly name\<close>

lemma PREFIX_unbordered:
  "PRANA_DEVICE_NAME_PREFIX = 80 # [82, 78, 65, 81, 97, 113] \<and> 80 \<notin> set [82, 78, 65, 81, 97, 113 :: nat]"
  by (simp add: PREFIX_unfold)

lemma friendly_removes_all:
  "replace_empty PRANA_DEVICE_NAME_PREFIX s = remove_all_occurrences PRANA_DEVICE_NAME_PREFIX s"
  using PREFIX_unbordered by (blast intro: replace_empty_removes_all)

lemma device_info_matched:
  assumes "ble_name dev = Some n" and "n \<noteq> []"
  shows "device_info dev =
     \<lparr>address = ble_address dev, bt_device_name = strip n,
      name = Some (strip (remove_all_occurrences PRANA_DEVICE_NAME_PREFIX n)),
      rssi = ble_rssi dev\<rparr>"
  using assms by (simp add: device_info_def prana_dev_name_2_name_def friendly_removes_all)

lemma spec_identity_filter_code:
  "spec_identity_filter dev = (if is_prana_device dev then Some (device_info dev) else None)"
  by (auto simp: spec_identity_filter_def is_prana_device_def startswith_def device_info_matched
      split: option.splits)

lemma discovered_map_filter: "discovered devs = List.map_filter spec_identity_filter devs"
  by (induction devs) (simp_all add: discovered_def List.map_filter_simps spec_identity_filter_code)

text \<open>
  C3: \<^verbatim>\<open>discover\<close> produces an identity for an advertisement if and only if its name
  is non-empty and starts with \<^verbatim>\<open>PRNAQaq\<close>, and nothing otherwise; the friendly name
  of the identity is the name with all occurrences of the prefix removed, then trimmed of
  surrounding white space. The list that \<^verbatim>\<open>discover\<close> returns is the specification's
  filter applied to each advertisement in turn.
\<close>

theorem identity_filter_refined:
  "discovered devs = List.map_filter spec_identity_filter devs \<and>
   (case ble_name dev of
      None \<Rightarrow> discovered [dev] = []
    | Some n \<Rightarrow>
        if n \<noteq> [] \<and> prefix PRANA_DEVICE_NAME_PREFIX n
        then \<exists>i. discovered [dev] = [i] \<and>
               name i = Some (strip (remove_all_occurrences PRANA_DEVICE_NAME_PREFIX n))
        else discovered [dev] = [])"
proof
  show "discovered devs = List.map_filter spec_identity_filter devs"
    by (rule discovered_map_filter)
next
  show "case ble_name dev of
      None \<Rightarrow> discovered [dev] = []
    | Some n \<Rightarrow>
        if n \<noteq> [] \<and> prefix PRANA_DEVICE_NAME_PREFIX n
        then \<exists>i. discovered [dev] = [i] \<and>
               name i = Some (strip (remove_all_occurrences PRANA_DEVICE_NAME_PREFIX n))
        else discovered [dev] = []"
    by (auto simp: discovered_def is_prana_device_def startswith_def device_info_matched
        split: option.splits)
qed

lemma living_room_name:
  "strip (remove_all_occurrences PRANA_DEVICE_NAME_PREFIX (str_of ''PRNAQaq Living Room''))
     = str_of ''Living Room''"
  unfolding friendly_removes_all [symmetric]
  by (simp add: PREFIX_unfold str_of_def strip_def isspace_def)

text \<open>
  The theorem at the advertisement \<^verbatim>\<open>PRNAQaq Living Room\<close>, whose identity has the
  friendly name \<^verbatim>\<open>Living Room\<close>, and at one whose name has the prefix behind an \<^verbatim>\<open>x\<close>.
\<close>

theorem identity_filter_refined_witness:
  "discovered [adv_living_room] =
     [\<lparr>address = str_of ''AA:BB:CC:DD:EE:FF'',
       bt_device_name = str_of ''PRNAQaq Living Room'',
       name = Some (str_of ''Living Room''),
       rssi = - 60\<rparr>] \<and>
   discovered [adv_not_leading] = []"
proof -
  have s: "strip (str_of ''PRNAQaq Living Room'') = str_of ''PRNAQaq Living Room''"
    by (simp add: str_of_def strip_def isspace_def)
  have p: "prefix PRANA_DEVICE_NAME_PREFIX (str_of ''PRNAQaq Living Room'')"
    by (simp add: PREFIX_unfold str_of_def)
  have ne: "str_of ''PRNAQaq Living Room'' \<noteq> []"
    by (simp add: str_of_def)
  have a: "spec_identity_filter adv_living_room =
     Some \<lparr>address = str_of ''AA:BB:CC:DD:EE:FF'',
       bt_device_name = str_of ''PRNAQaq Living Room'',
       name = Some (str_of ''Living Room''),
       rssi = - 60\<rparr>"
    by (simp add: spec_identity_filter_def adv_living_room_def s p ne living_room_name)
  have b: "spec_identity_filter adv_not_leading = None"
    by (simp add: spec_identity_filter_def adv_not_leading_def PREFIX_unfold str_of_def)
  have "discovered [adv_living_room] = List.map_filter spec_identity_filter [adv_living_room]"
    using identity_filter_refined [of "[adv_living_room]" adv_living_room] by (rule conjunct1)
  moreover
  have "discovered [adv_not_leading] = List.map_filter spec_identity_filter [adv_not_leading]"
    using identity_filter_refined [of "[adv_not_leading]" adv_not_leading] by (rule conjunct1)
  ultimately show ?thesis by (simp add: a b List.map_filter_simps)
qed

text \<open>
  C2 as stated fails: the name \<^verbatim>\<open>xPRNAQaq\<close> is non-empty and contains the prefix, and
  is not matched; the name \<^verbatim>\<open>PRNAQaqPRNAPRNAQaqQaq\<close> is matched, and its friendly name
  is \<^verbatim>\<open>PRNAQaq\<close>, the prefix itself, put together from what the two removals left.
\<close>

theorem identity_filter_contains_counterexample:
  "str_of ''xPRNAQaq'' \<noteq> [] \<and>
   sublist PRANA_DEVICE_NAME_PREFIX (str_of ''xPRNAQaq'') \<and>
   ble_name adv_not_leading = Some (str_of ''xPRNAQaq'') \<and>
   \<not> is_prana_device adv_not_leading \<and>
   is_prana_device adv_nested \<and>
   name (device_info adv_nested) = Some (str_of ''PRNAQaq'') \<and>
   sublist PRANA_DEVICE_NAME_PREFIX (str_of ''PRNAQaq'')"
  by (simp add: adv_not_leading_def adv_nested_def is_prana_device_def startswith_def
      device_info_def prana_dev_name_2_name_def PREFIX_unfold str_of_def strip_def
      isspace_def sublist_Cons_right)

lemma PREFIX_nonempty: "PRANA_DEVICE_NAME_PREFIX \<noteq> []"
  by (simp add: PREFIX_unfold)

lemma PREFIX_ends:
  "hd PRANA_DEVICE_NAME_PREFIX = 80" "\<not> isspace (hd PRANA_DEVICE_NAME_PREFIX)"
  "\<not> isspace (last PRANA_DEVICE_NAME_PREFIX)"
  by (simp_all add: PREFIX_unfold isspace_def)

lemma sublist_dropWhile_keeps:
  "p \<noteq> [] \<Longrightarrow> \<not> P (hd p) \<Longrightarrow> sublist p xs \<Longrightarrow> sublist p (dropWhile P xs)"
proof (induction xs)
  case Nil
  then show ?case by simp
next
  case (Cons x xs)
  show ?case
  proof (cases "P x")
    case True
    have "\<not> prefix p (x # xs)"
    proof
      assume "prefix p (x # xs)"
      with Cons.prems(1) have "hd p = x" by (cases p) simp_all
      with Cons.prems(2) True show False by simp
    qed
    with Cons.prems(3) have "sublist p xs" by (simp add: sublist_Cons_right)
    with Cons.IH Cons.prems(1,2) True show ?thesis by simp
  next
    case False
    with Cons.prems(3) show ?thesis by simp
  qed
qed

lemma sublist_strip_keeps:
  assumes "p \<noteq> []" and "\<not> isspace (hd p)" and "\<not> isspace (last p)" and "sublist p s"
  shows "sublist p (strip s)"
proof -
  from assms(1,2,4) have "sublist p (dropWhile isspace s)"
    by (rule sublist_dropWhile_keeps)
  then have "sublist (rev p) (rev (dropWhile isspace s))" by simp
  moreover from assms(1,3) have "rev p \<noteq> []" "\<not> isspace (hd (rev p))"
    by (simp_all add: hd_rev)
  ultimately have "sublist (rev p) (dropWhile isspace (rev (dropWhile isspace s)))"
    by (intro sublist_dropWhile_keeps)
  then have "sublist (rev (rev p)) (rev (dropWhile isspace (rev (dropWhile isspace s))))"
    by (simp only: sublist_rev)
  then show ?thesis by (simp add: strip_def)
qed

lemma occurs_at_covered: "occurs_at old s i \<Longrightarrow> covered old s i"
proof -
  assume o: "occurs_at old s i"
  then have "old \<noteq> []" by (simp add: occurs_at_def)
  then have "i < i + length old" by simp
  with o show ?thesis unfolding covered_iff by blast
qed

lemma remove_all_occurrences_kept:
  assumes "x \<in> set (remove_all_occurrences old s)"
  shows "\<exists>i<length s. s ! i = x \<and> \<not> covered old s i"
  using assms by (auto simp: remove_all_occurrences_def)

lemma starts_removed:
  assumes "\<forall>i<length s. s ! i = hd old \<longrightarrow> occurs_at old s i"
  shows "hd old \<notin> set (remove_all_occurrences old s)"
proof
  assume "hd old \<in> set (remove_all_occurrences old s)"
  then obtain i where i: "i < length s" "s ! i = hd old" "\<not> covered old s i"
    using remove_all_occurrences_kept by blast
  with assms have "occurs_at old s i" by simp
  then have "covered old s i" by (rule occurs_at_covered)
  with i(3) show False by simp
qed

lemma sublist_hd_mem: "sublist p s \<Longrightarrow> p \<noteq> [] \<Longrightarrow> hd p \<in> set s"
proof -
  assume "sublist p s" and "p \<noteq> []"
  then have "set p \<subseteq> set s" and "hd p \<in> set p"
    by (simp_all add: set_mono_sublist)
  then show ?thesis by blast
qed

text \<open>
  C2, amended: the filter matches a name if and only if it is non-empty and starts with
  the prefix \<^verbatim>\<open>PRNAQaq\<close>. The friendly name of a matched name is the name with every
  occurrence of the prefix deleted, then trimmed; it has no leading and no trailing
  white space; it contains the prefix exactly when the text left after deleting every
  occurrence contains it, that is when the pieces left over join into a new occurrence.
  So it does not contain the prefix when every \<^verbatim>\<open>P\<close> of the name starts an occurrence
  of the prefix, nor when the rest of the name behind the leading prefix does not
  contain the prefix (then it is that rest, trimmed).
\<close>

theorem identity_filter_matches:
  "(is_prana_device dev \<longleftrightarrow>
      (\<exists>n. ble_name dev = Some n \<and> n \<noteq> [] \<and> prefix PRANA_DEVICE_NAME_PREFIX n)) \<and>
   (is_prana_device dev \<longrightarrow>
      (\<exists>n f. ble_name dev = Some n \<and> name (device_info dev) = Some f \<and>
         f = strip (remove_all_occurrences PRANA_DEVICE_NAME_PREFIX n) \<and>
         (f = [] \<or> (\<not> isspace (hd f) \<and> \<not> isspace (last f))) \<and>
         (sublist PRANA_DEVICE_NAME_PREFIX f \<longleftrightarrow>
            sublist PRANA_DEVICE_NAME_PREFIX (remove_all_occurrences PRANA_DEVICE_NAME_PREFIX n)) \<and>
         ((\<forall>i<length n. n ! i = hd PRANA_DEVICE_NAME_PREFIX \<longrightarrow>
              occurs_at PRANA_DEVICE_NAME_PREFIX n i) \<longrightarrow>
            \<not> sublist PRANA_DEVICE_NAME_PREFIX f) \<and>
         (\<forall>rest. n = PRANA_DEVICE_NAME_PREFIX @ rest \<and>
                 \<not> sublist PRANA_DEVICE_NAME_PREFIX rest \<longrightarrow>
                 f = strip rest \<and> \<not> sublist PRANA_DEVICE_NAME_PREFIX f)))"
proof (rule conjI)
  show "is_prana_device dev \<longleftrightarrow>
      (\<exists>n. ble_name dev = Some n \<and> n \<noteq> [] \<and> prefix PRANA_DEVICE_NAME_PREFIX n)"
    by (rule is_prana_device_iff)
next
  let ?P = PRANA_DEVICE_NAME_PREFIX
  have "\<exists>n f. ble_name dev = Some n \<and> name (device_info dev) = Some f \<and>
         f = strip (remove_all_occurrences ?P n) \<and>
         (f = [] \<or> (\<not> isspace (hd f) \<and> \<not> isspace (last f))) \<and>
         (sublist ?P f \<longleftrightarrow> sublist ?P (remove_all_occurrences ?P n)) \<and>
         ((\<forall>i<length n. n ! i = hd ?P \<longrightarrow> occurs_at ?P n i) \<longrightarrow> \<not> sublist ?P f) \<and>
         (\<forall>rest. n = ?P @ rest \<and> \<not> sublist ?P rest \<longrightarrow>
                 f = strip rest \<and> \<not> sublist ?P f)"
    if m: "is_prana_device dev"
  proof -
    from m obtain n where n: "ble_name dev = Some n" "n \<noteq> []"
      by (auto simp: is_prana_device_iff)
    define r where "r = remove_all_occurrences ?P n"
    define f where "f = strip r"
    have r: "replace_empty ?P n = r"
      by (simp add: r_def friendly_removes_all)
    have 1: "name (device_info dev) = Some f"
      using n by (simp add: device_info_def prana_dev_name_2_name_def f_def r)
    have 2: "f = [] \<or> (\<not> isspace (hd f) \<and> \<not> isspace (last f))"
      unfolding f_def by (rule strip_ends)
    have 3: "sublist ?P f \<longleftrightarrow> sublist ?P r"
    proof
      assume "sublist ?P f"
      then show "sublist ?P r"
        unfolding f_def using sublist_strip [of r] by (rule sublist_order.order_trans)
    next
      assume "sublist ?P r"
      with PREFIX_nonempty PREFIX_ends(2,3) show "sublist ?P f"
        unfolding f_def by (rule sublist_strip_keeps)
    qed
    have 4: "\<not> sublist ?P f" if s: "\<forall>i<length n. n ! i = hd ?P \<longrightarrow> occurs_at ?P n i"
    proof
      assume "sublist ?P f"
      with 3 have "sublist ?P r" by simp
      then have "hd ?P \<in> set r" using PREFIX_nonempty by (rule sublist_hd_mem)
      moreover from s have "hd ?P \<notin> set r" unfolding r_def by (rule starts_removed)
      ultimately show False by simp
    qed
    have 5: "f = strip rest \<and> \<not> sublist ?P f"
      if t: "n = ?P @ rest \<and> \<not> sublist ?P rest" for rest
    proof -
      from t have "replace_empty ?P n = rest"
        by (simp add: replace_empty_leading [OF PREFIX_nonempty] replace_empty_absent)
      with r have e: "r = rest" by simp
      with 3 t show ?thesis by (simp add: f_def)
    qed
    from n(1) 1 2 3 4 5 show ?thesis unfolding f_def r_def by blast
  qed
  then show "is_prana_device dev \<longrightarrow>
      (\<exists>n f. ble_name dev = Some n \<and> name (device_info dev) = Some f \<and>
         f = strip (remove_all_occurrences ?P n) \<and>
         (f = [] \<or> (\<not> isspace (hd f) \<and> \<not> isspace (last f))) \<and>
         (sublist ?P f \<longleftrightarrow> sublist ?P (remove_all_occurrences ?P n)) \<and>
         ((\<forall>i<length n. n ! i = hd ?P \<longrightarrow> occurs_at ?P n i) \<longrightarrow> \<not> sublist ?P f) \<and>
         (\<forall>rest. n = ?P @ rest \<and> \<not> sublist ?P rest \<longrightarrow>
                 f = strip rest \<and> \<not> sublist ?P f))"
    by (rule impI)
qed

lemma two_rooms_removed:
  "remove_all_occurrences PRANA_DEVICE_NAME_PREFIX (str_of ''PRNAQaq A PRNAQaq B'')
     = str_of '' A  B''"
  unfolding friendly_removes_all [symmetric]
  by (simp add: PREFIX_unfold str_of_def)

lemma two_rooms_starts:
  "\<forall>i<length (str_of ''PRNAQaq A PRNAQaq B'').
     str_of ''PRNAQaq A PRNAQaq B'' ! i = hd PRANA_DEVICE_NAME_PREFIX \<longrightarrow>
     occurs_at PRANA_DEVICE_NAME_PREFIX (str_of ''PRNAQaq A PRNAQaq B'') i"
proof -
  have "list_all (\<lambda>i. str_of ''PRNAQaq A PRNAQaq B'' ! i = hd PRANA_DEVICE_NAME_PREFIX \<longrightarrow>
     occurs_at PRANA_DEVICE_NAME_PREFIX (str_of ''PRNAQaq A PRNAQaq B'') i)
     [0 ..< length (str_of ''PRNAQaq A PRNAQaq B'')]"
    by (simp add: PREFIX_unfold str_of_def occurs_at_def upt_conv_Cons)
  then show ?thesis by (simp add: list_all_iff)
qed

text \<open>
  The theorem at the advertisement \<^verbatim>\<open>PRNAQaq A PRNAQaq B\<close>, whose friendly name
  \<^verbatim>\<open>A  B\<close> does not contain the prefix, and at \<^verbatim>\<open>PRNAQaq Living Room\<close>.
\<close>

theorem identity_filter_matches_witness:
  "is_prana_device adv_two_rooms \<and>
   \<not> sublist PRANA_DEVICE_NAME_PREFIX
       (remove_all_occurrences PRANA_DEVICE_NAME_PREFIX (str_of ''PRNAQaq A PRNAQaq B'')) \<and>
   name (device_info adv_two_rooms) = Some (str_of ''A  B'') \<and>
   \<not> sublist PRANA_DEVICE_NAME_PREFIX (str_of ''A  B'') \<and>
   is_prana_device adv_living_room \<and>
   str_of ''PRNAQaq Living Room'' = PRANA_DEVICE_NAME_PREFIX @ str_of '' Living Room'' \<and>
   \<not> sublist PRANA_DEVICE_NAME_PREFIX (str_of '' Living Room'') \<and>
   name (device_info adv_living_room) = Some (str_of ''Living Room'') \<and>
   \<not> sublist PRANA_DEVICE_NAME_PREFIX (str_of ''Living Room'')"
proof -
  let ?P = PRANA_DEVICE_NAME_PREFIX
  have a: "is_prana_device adv_two_rooms"
    by (simp add: adv_two_rooms_def is_prana_device_def startswith_def PREFIX_unfold str_of_def)
  have an: "ble_name adv_two_rooms = Some (str_of ''PRNAQaq A PRNAQaq B'')"
    by (simp add: adv_two_rooms_def)
  have ar: "\<not> sublist ?P (remove_all_occurrences ?P (str_of ''PRNAQaq A PRNAQaq B''))"
    unfolding two_rooms_removed by (simp add: PREFIX_unfold str_of_def sublist_Cons_right)
  have ad: "strip (str_of '' A  B'') = str_of ''A  B''"
    by (simp add: str_of_def strip_def isspace_def)
  from a identity_filter_matches [of adv_two_rooms]
  obtain n f where nf: "ble_name adv_two_rooms = Some n"
      "name (device_info adv_two_rooms) = Some f"
      "f = strip (remove_all_occurrences ?P n)"
      "sublist ?P f \<longleftrightarrow> sublist ?P (remove_all_occurrences ?P n)"
      "(\<forall>i<length n. n ! i = hd ?P \<longrightarrow> occurs_at ?P n i) \<longrightarrow> \<not> sublist ?P f"
    by blast
  from nf(1) an have n: "n = str_of ''PRNAQaq A PRNAQaq B''" by simp
  from nf(5) two_rooms_starts have "\<not> sublist ?P f" unfolding n by (rule mp)
  from nf(3) have f: "f = str_of ''A  B''" by (simp add: n two_rooms_removed ad)
  from nf(4) ar have "\<not> sublist ?P f" by (simp add: n)
  with nf(2) f have 1: "name (device_info adv_two_rooms) = Some (str_of ''A  B'') \<and>
      \<not> sublist ?P (str_of ''A  B'')"
    by simp
  have b: "is_prana_device adv_living_room"
    by (simp add: adv_living_room_def is_prana_device_def startswith_def PREFIX_unfold str_of_def)
  have bn: "ble_name adv_living_room = Some (str_of ''PRNAQaq Living Room'')"
    by (simp add: adv_living_room_def)
  have bs: "str_of ''PRNAQaq Living Room'' = ?P @ str_of '' Living Room''"
    by (simp add: PREFIX_unfold str_of_def)
  have br: "\<not> sublist ?P (str_of '' Living Room'')"
    by (simp add: PREFIX_unfold str_of_def sublist_Cons_right)
  have bd: "strip (str_of '' Living Room'') = str_of ''Living Room''"
    by (simp add: str_of_def strip_def isspace_def)
  from b identity_filter_matches [of adv_living_room]
  obtain m g where mg: "ble_name adv_living_room = Some m"
      "name (device_info adv_living_room) = Some g"
      "\<forall>rest. m = ?P @ rest \<and> \<not> sublist ?P rest \<longrightarrow> g = strip rest \<and> \<not> sublist ?P g"
    by blast
  from mg(1) bn bs have "m = ?P @ str_of '' Living Room''" by simp
  with br mg(3) have "g = strip (str_of '' Living Room'') \<and> \<not> sublist ?P g" by blast
  with mg(2) have 2: "name (device_info adv_living_room) = Some (str_of ''Living Room'') \<and>
      \<not> sublist ?P (str_of ''Living Room'')"
    unfolding bd by blast
  from a ar 1 b bs br 2 show ?thesis by (simp only: simp_thms)
qed

subsection \<open>The sample sessions, evaluated\<close>

lemma addresses_differ: "bedroom \<noteq> living_room" "living_room \<noteq> bedroom"
  by (simp_all add: bedroom_def living_room_def str_of_def)

lemma unconnected_session_eq:
  "unconnected_session =
     \<lparr>ble_interface = hci0, managed_devices = [],
      objects = (\<lambda>_. \<lparr>device_address = [], client = 0, has_connect_attempts = False\<rparr>)
        (0 := \<lparr>device_address = living_room, client = 1, has_connect_attempts = False\<rparr>),
      fresh = 2, trace = [BleakClient 1 living_room hci0]\<rparr>"
  by (simp add: unconnected_session_def device_init_Address manager_init_def)

lemma connected_session_eq:
  "connected_session =
     \<lparr>ble_interface = hci0, managed_devices = [(living_room, 0)],
      objects = (\<lambda>_. \<lparr>device_address = [], client = 0, has_connect_attempts = False\<rparr>)
        (0 := \<lparr>device_address = living_room, client = 1, has_connect_attempts = True\<rparr>),
      fresh = 2,
      trace = [BleakClient 1 living_room hci0, ClientConnect 1 5,
               StartNotify 1 CONTROL_RW_CHARACTERISTIC_UUID 0]\<rparr>"
  by (simp add: connected_session_def manager_connect_def addr_for_target_def
      device_init_Address manager_init_def device_connect_def call_def transport_up_def Let_def)

lemma two_sessions_eq:
  "two_sessions =
     \<lparr>ble_interface = hci0, managed_devices = [(living_room, 0), (bedroom, 2)],
      objects = (\<lambda>_. \<lparr>device_address = [], client = 0, has_connect_attempts = False\<rparr>)
        (0 := \<lparr>device_address = living_room, client = 1, has_connect_attempts = True\<rparr>,
         2 := \<lparr>device_address = bedroom, client = 3, has_connect_attempts = True\<rparr>),
      fresh = 4,
      trace = [BleakClient 1 living_room hci0, ClientConnect 1 5,
               StartNotify 1 CONTROL_RW_CHARACTERISTIC_UUID 0,
               BleakClient 3 bedroom hci0, ClientConnect 3 5,
               StartNotify 3 CONTROL_RW_CHARACTERISTIC_UUID 2]\<rparr>"
  by (simp add: two_sessions_def connected_session_eq manager_connect_def addr_for_target_def
      device_init_Address device_connect_def call_def transport_up_def Let_def addresses_differ
      numeral_2_eq_2 numeral_3_eq_3 eval_nat_numeral)


lemma is_connected_eq:
  "is_connected tr self s =
     (if has_connect_attempts (objects s self)
      then (is_connected_reply tr (trace s) (client (objects s self)),
            s\<lparr>trace := trace s @ [ClientIsConnected (client (objects s self))]\<rparr>)
      else (Inr False, s))"
  by (simp add: is_connected_def call_def)

lemma is_connected_state:
  "snd (is_connected tr self s) =
     s\<lparr>trace := trace s @
        (if has_connect_attempts (objects s self)
         then [ClientIsConnected (client (objects s self))] else [])\<rparr>"
  by (simp add: is_connected_eq)

subsection \<open>The write-then-read exchange\<close>



subsection \<open>Commands on a device that is not connected\<close>

text \<open>
  C7: when \<^verbatim>\<open>is_connected\<close> answers false, each of \<^verbatim>\<open>set_high_speed\<close>,
  \<^verbatim>\<open>set_night_mode\<close>, \<^verbatim>\<open>turn_off\<close> and \<^verbatim>\<open>read_state\<close> raises the
  \<^verbatim>\<open>RuntimeError\<close> of \<^verbatim>\<open>__verify_connected\<close> and performs no transport I/O: the trace
  grows by the connectivity query alone (and by nothing while the flag is clear), so no
  characteristic is written or read.
\<close>

theorem not_connected_no_io:
  "fst (is_connected tr self s) = Inr False \<longrightarrow>
   (let s' = s\<lparr>trace := trace s @
                (if has_connect_attempts (objects s self)
                 then [ClientIsConnected (client (objects s self))] else [])\<rparr>
    in set_high_speed tr self s = (Inl RuntimeError, s') \<and>
       set_night_mode tr self s = (Inl RuntimeError, s') \<and>
       turn_off tr self s = (Inl RuntimeError, s') \<and>
       read_state tr self s = (Inl RuntimeError, s') \<and>
       filter is_io (trace s') = filter is_io (trace s))"
proof
  assume a: "fst (is_connected tr self s) = Inr False"
  have "filter is_io (trace (snd (is_connected tr self s))) = filter is_io (trace s)"
    by (rule is_connected_trace)
  with a show "let s' = s\<lparr>trace := trace s @
                (if has_connect_attempts (objects s self)
                 then [ClientIsConnected (client (objects s self))] else [])\<rparr>
    in set_high_speed tr self s = (Inl RuntimeError, s') \<and>
       set_night_mode tr self s = (Inl RuntimeError, s') \<and>
       turn_off tr self s = (Inl RuntimeError, s') \<and>
       read_state tr self s = (Inl RuntimeError, s') \<and>
       filter is_io (trace s') = filter is_io (trace s)"
    unfolding Let_def set_high_speed_def set_night_mode_def turn_off_def
      verified_send_not_connected [OF a] read_state_not_connected [OF a] is_connected_state
    by simp
qed

text \<open>
  The theorem on the session that was never connected, and on the connected session
  when the transport reports the link as lost.
\<close>

theorem not_connected_no_io_witness:
  "fst (is_connected (transport_up sample_state_msg) 0 unconnected_session) = Inr False \<and>
   set_high_speed (transport_up sample_state_msg) 0 unconnected_session
     = (Inl RuntimeError, unconnected_session) \<and>
   read_state (transport_up sample_state_msg) 0 unconnected_session
     = (Inl RuntimeError, unconnected_session) \<and>
   fst (is_connected (transport_link_lost sample_state_msg) 0 connected_session) = Inr False \<and>
   turn_off (transport_link_lost sample_state_msg) 0 connected_session
     = (Inl RuntimeError,
        connected_session\<lparr>trace := trace connected_session @ [ClientIsConnected 1]\<rparr>) \<and>
   set_night_mode (transport_link_lost sample_state_msg) 0 connected_session
     = (Inl RuntimeError,
        connected_session\<lparr>trace := trace connected_session @ [ClientIsConnected 1]\<rparr>)"
proof -
  have u: "\<not> has_connect_attempts (objects unconnected_session 0)"
    by (simp add: unconnected_session_eq)
  have c: "has_connect_attempts (objects connected_session 0)"
      "client (objects connected_session 0) = 1"
    by (simp_all add: connected_session_eq)
  have a: "fst (is_connected (transport_up sample_state_msg) 0 unconnected_session) = Inr False"
    using u by (simp add: is_connected_eq)
  have b: "fst (is_connected (transport_link_lost sample_state_msg) 0 connected_session) = Inr False"
    using c by (simp add: is_connected_eq transport_link_lost_def)
  from a not_connected_no_io [of "transport_up sample_state_msg" 0 unconnected_session]
  have 1: "set_high_speed (transport_up sample_state_msg) 0 unconnected_session
       = (Inl RuntimeError, unconnected_session) \<and>
     read_state (transport_up sample_state_msg) 0 unconnected_session
       = (Inl RuntimeError, unconnected_session)"
    using u by (simp add: Let_def)
  from b not_connected_no_io [of "transport_link_lost sample_state_msg" 0 connected_session]
  have 2: "turn_off (transport_link_lost sample_state_msg) 0 connected_session
     = (Inl RuntimeError,
        connected_session\<lparr>trace := trace connected_session @ [ClientIsConnected 1]\<rparr>) \<and>
   set_night_mode (transport_link_lost sample_state_msg) 0 connected_session
     = (Inl RuntimeError,
        connected_session\<lparr>trace := trace connected_session @ [ClientIsConnected 1]\<rparr>)"
    using c by (simp add: Let_def)
  from a b 1 2 show ?thesis by (simp only: simp_thms)
qed

subsection \<open>A connect that fails\<close>

text \<open>
  C5 as stated fails: on the session that was never connected (flag clear), a
  \<^verbatim>\<open>connect\<close> whose transport open raises leaves the flag clear.
\<close>

theorem connect_failure_flag_counterexample:
  "\<not> has_connect_attempts (objects unconnected_session 0) \<and>
   fst (device_connect transport_down 0 2 unconnected_session) = Inl TransportError \<and>
   \<not> has_connect_attempts (objects (snd (device_connect transport_down 0 2 unconnected_session)) 0)"
  by (simp add: unconnected_session_eq device_connect_raises transport_down_def)

text \<open>
  C5, amended: for a session with the flag clear, if the transport open raises, then
  \<^verbatim>\<open>connect\<close> raises the same error after that one call and the flag stays clear (no
  subscription is requested); the flag is set once the transport open has returned.
\<close>

theorem connect_failure_keeps_flag:
  "(\<not> has_connect_attempts (objects s self) \<and>
    connect_reply tr (trace s) (client (objects s self)) timeout = Some e \<longrightarrow>
      device_connect tr self timeout s =
        (Inl e, s\<lparr>trace := trace s @ [ClientConnect (client (objects s self)) timeout]\<rparr>) \<and>
      \<not> has_connect_attempts (objects (snd (device_connect tr self timeout s)) self)) \<and>
   (connect_reply tr (trace s) (client (objects s self)) timeout = None \<longrightarrow>
      has_connect_attempts (objects (snd (device_connect tr self timeout s)) self))"
  by (simp add: device_connect_raises device_connect_opens)

text \<open>The theorem on the session that was never connected, with the transport down and up.\<close>

theorem connect_failure_keeps_flag_witness:
  "\<not> has_connect_attempts (objects unconnected_session 0) \<and>
   device_connect transport_down 0 2 unconnected_session =
     (Inl TransportError,
      unconnected_session\<lparr>trace := trace unconnected_session @ [ClientConnect 1 2]\<rparr>) \<and>
   \<not> has_connect_attempts (objects (snd (device_connect transport_down 0 2 unconnected_session)) 0) \<and>
   has_connect_attempts
     (objects (snd (device_connect (transport_up sample_state_msg) 0 2 unconnected_session)) 0)"
proof -
  have u: "\<not> has_connect_attempts (objects unconnected_session 0)"
      "client (objects unconnected_session 0) = 1"
    by (simp_all add: unconnected_session_eq)
  have d: "connect_reply transport_down t 1 2 = Some TransportError" for t
    by (simp add: transport_down_def)
  have p: "connect_reply (transport_up sample_state_msg) t 1 2 = None" for t
    by (simp add: transport_up_def)
  from connect_failure_keeps_flag [of unconnected_session 0 transport_down 2 TransportError]
    connect_failure_keeps_flag [of unconnected_session 0 "transport_up sample_state_msg" 2 TransportError]
  show ?thesis unfolding u(2) using u(1) by (simp add: transport_up_def transport_down_def)
qed


subsection \<open>Connecting again, disconnecting without a connection\<close>

text \<open>
  C6 as stated fails: on the connected sample session (\<^verbatim>\<open>is_connected\<close> answers true,
  one subscription in the trace) another \<^verbatim>\<open>connect\<close> opens the transport again and
  subscribes the handler to the control characteristic a second time; and
  \<^verbatim>\<open>disconnect\<close> on the session that was never connected calls the transport's
  disconnect.
\<close>

theorem connect_again_counterexample:
  "fst (is_connected (transport_up sample_state_msg) 0 connected_session) = Inr True \<and>
   trace connected_session =
     [BleakClient 1 living_room hci0, ClientConnect 1 5,
      StartNotify 1 CONTROL_RW_CHARACTERISTIC_UUID 0] \<and>
   trace (snd (device_connect (transport_up sample_state_msg) 0 2 connected_session)) =
     [BleakClient 1 living_room hci0, ClientConnect 1 5,
      StartNotify 1 CONTROL_RW_CHARACTERISTIC_UUID 0,
      ClientConnect 1 2,
      StartNotify 1 CONTROL_RW_CHARACTERISTIC_UUID 0] \<and>
   fst (is_connected (transport_up sample_state_msg) 0 unconnected_session) = Inr False \<and>
   trace (snd (device_disconnect (transport_up sample_state_msg) 0 unconnected_session)) =
     trace unconnected_session @ [ClientDisconnect 1]"
  by (simp add: is_connected_eq connected_session_eq unconnected_session_eq
      device_connect_opens device_disconnect_eq transport_up_def)

text \<open>
  C6, amended: \<^verbatim>\<open>connect\<close> on a session, connected or not, creates no object and
  leaves the registry as it is, but opens the transport again and, when that returns,
  requests a subscription to the control characteristic once more; \<^verbatim>\<open>disconnect\<close> on
  a session, connected or not, changes nothing but the trace: it calls the transport's
  disconnect and succeeds exactly when that call does.
\<close>

theorem connect_again:
  "(connect_reply tr (trace s) (client (objects s self)) timeout = None \<longrightarrow>
      fst (device_connect tr self timeout s) =
        raised (start_notify_reply tr
          (trace s @ [ClientConnect (client (objects s self)) timeout]) (client (objects s self))) \<and>
      trace (snd (device_connect tr self timeout s)) =
        trace s @ [ClientConnect (client (objects s self)) timeout,
                   StartNotify (client (objects s self)) CONTROL_RW_CHARACTERISTIC_UUID self]) \<and>
   fresh (snd (device_connect tr self timeout s)) = fresh s \<and>
   managed_devices (snd (device_connect tr self timeout s)) = managed_devices s \<and>
   device_disconnect tr self s =
     (raised (disconnect_reply tr (trace s) (client (objects s self))),
      s\<lparr>trace := trace s @ [ClientDisconnect (client (objects s self))]\<rparr>)"
  by (simp add: device_connect_opens device_disconnect_eq)

text \<open>The theorem on the connected sample session and on the one never connected.\<close>

theorem connect_again_witness:
  "fst (device_connect (transport_up sample_state_msg) 0 2 connected_session) = Inr () \<and>
   trace (snd (device_connect (transport_up sample_state_msg) 0 2 connected_session)) =
     trace connected_session @
       [ClientConnect 1 2, StartNotify 1 CONTROL_RW_CHARACTERISTIC_UUID 0] \<and>
   fresh (snd (device_connect (transport_up sample_state_msg) 0 2 connected_session)) = 2 \<and>
   managed_devices (snd (device_connect (transport_up sample_state_msg) 0 2 connected_session)) =
     [(living_room, 0)] \<and>
   device_disconnect (transport_up sample_state_msg) 0 unconnected_session =
     (Inr (), unconnected_session\<lparr>trace := trace unconnected_session @ [ClientDisconnect 1]\<rparr>)"
proof -
  have c: "client (objects connected_session 0) = 1" "fresh connected_session = 2"
      "managed_devices connected_session = [(living_room, 0)]"
    by (simp_all add: connected_session_eq)
  have u: "client (objects unconnected_session 0) = 1"
    by (simp add: unconnected_session_eq)
  from connect_again [of "transport_up sample_state_msg" connected_session 0 2]
    connect_again [of "transport_up sample_state_msg" unconnected_session 0 2]
  show ?thesis unfolding c u by (simp add: transport_up_def)
qed

subsection \<open>Disconnecting all sessions\<close>

text \<open>
  C4 as stated fails: with two managed sessions and a transport whose disconnect raises,
  \<^verbatim>\<open>disconnect_all\<close> raises at the first session and never calls the disconnect of
  the second.
\<close>

theorem disconnect_all_aborts_counterexample:
  "map snd (managed_devices two_sessions) = [0, 2] \<and>
   client (objects two_sessions 0) = 1 \<and> client (objects two_sessions 2) = 3 \<and>
   disconnect_all (transport_keeps_open sample_state_msg) two_sessions =
     (Inl TransportError, two_sessions\<lparr>trace := trace two_sessions @ [ClientDisconnect 1]\<rparr>) \<and>
   ClientDisconnect 3
     \<notin> set (trace (snd (disconnect_all (transport_keeps_open sample_state_msg) two_sessions)))"
  by (simp add: two_sessions_eq disconnect_all_def device_disconnect_eq
      transport_keeps_open_def transport_up_def)

text \<open>
  C4, amended: \<^verbatim>\<open>disconnect_all\<close> disconnects the managed sessions one after the other
  in the order of the dictionary. When no disconnect raises, every session is
  disconnected; when the disconnect of session \<open>k\<close> is the first to raise, its error is
  raised to the caller and no disconnect is attempted on the sessions behind it.
\<close>

theorem disconnect_all_sequential:
  "((\<forall>j<length (managed_devices s).
       disconnect_answer tr s (map snd (managed_devices s)) j = None) \<longrightarrow>
      disconnect_all tr s =
        (Inr (), s\<lparr>trace := trace s @ disconnects s (map snd (managed_devices s))\<rparr>)) \<and>
   (k < length (managed_devices s) \<and>
    (\<forall>j<k. disconnect_answer tr s (map snd (managed_devices s)) j = None) \<and>
    disconnect_answer tr s (map snd (managed_devices s)) k = Some e \<longrightarrow>
      disconnect_all tr s =
        (Inl e, s\<lparr>trace := trace s @
                  disconnects s (take (Suc k) (map snd (managed_devices s)))\<rparr>))"
proof (intro conjI impI)
  assume "\<forall>j<length (managed_devices s).
       disconnect_answer tr s (map snd (managed_devices s)) j = None"
  then show "disconnect_all tr s =
        (Inr (), s\<lparr>trace := trace s @ disconnects s (map snd (managed_devices s))\<rparr>)"
    unfolding disconnect_all_def by (intro disconnect_each_all) simp
next
  assume a: "k < length (managed_devices s) \<and>
    (\<forall>j<k. disconnect_answer tr s (map snd (managed_devices s)) j = None) \<and>
    disconnect_answer tr s (map snd (managed_devices s)) k = Some e"
  then have "k < length (map snd (managed_devices s))" by simp
  with a show "disconnect_all tr s =
        (Inl e, s\<lparr>trace := trace s @
                  disconnects s (take (Suc k) (map snd (managed_devices s)))\<rparr>)"
    unfolding disconnect_all_def by (intro disconnect_each_stops) simp_all
qed

text \<open>The theorem on the two sample sessions, with a transport that disconnects and one that does not.\<close>

theorem disconnect_all_sequential_witness:
  "disconnect_all (transport_up sample_state_msg) two_sessions =
     (Inr (), two_sessions\<lparr>trace := trace two_sessions @
                [ClientDisconnect 1, ClientDisconnect 3]\<rparr>) \<and>
   disconnect_all (transport_keeps_open sample_state_msg) two_sessions =
     (Inl TransportError, two_sessions\<lparr>trace := trace two_sessions @ [ClientDisconnect 1]\<rparr>)"
proof -
  have m: "managed_devices two_sessions = [(living_room, 0), (bedroom, 2)]"
    by (simp add: two_sessions_eq)
  have c: "client (objects two_sessions 0) = 1" "client (objects two_sessions 2) = 3"
    by (simp_all add: two_sessions_eq)
  have d: "disconnects two_sessions [0, 2] = [ClientDisconnect 1, ClientDisconnect 3]"
      "disconnects two_sessions [0] = [ClientDisconnect 1]"
    by (simp_all add: disconnects_def c)
  have up: "disconnect_answer (transport_up sample_state_msg) two_sessions [0, 2] j = None" for j
    by (simp add: disconnect_answer_def transport_up_def)
  have down: "disconnect_answer (transport_keeps_open sample_state_msg) two_sessions [0, 2] 0
      = Some TransportError"
    by (simp add: disconnect_answer_def transport_keeps_open_def)
  from disconnect_all_sequential [of two_sessions "transport_up sample_state_msg" 0 TransportError]
  have 1: "disconnect_all (transport_up sample_state_msg) two_sessions =
     (Inr (), two_sessions\<lparr>trace := trace two_sessions @
                [ClientDisconnect 1, ClientDisconnect 3]\<rparr>)"
    by (simp add: m up d)
  from disconnect_all_sequential
    [of two_sessions "transport_keeps_open sample_state_msg" 0 TransportError]
  have 2: "disconnect_all (transport_keeps_open sample_state_msg) two_sessions =
     (Inl TransportError, two_sessions\<lparr>trace := trace two_sessions @ [ClientDisconnect 1]\<rparr>)"
    by (simp add: m down d)
  from 1 2 show ?thesis by (simp only: simp_thms)
qed

subsection \<open>One session per address\<close>

text \<open>
  C8: two calls of the manager's \<^verbatim>\<open>connect\<close> whose targets resolve to the same address
  return the same \<^verbatim>\<open>PranaDevice\<close> object (the same reference), whatever operations are
  performed in between: the dictionary holds at most one entry per address, every
  operation preserves that, and an entry, once made, is never removed or replaced.
\<close>

theorem registry_identity:
  "(distinct (map fst (managed_devices s)) \<longrightarrow>
      distinct (map fst (managed_devices (perform_all tr ops s)))) \<and>
   (addr_for_target tgt1 = Inr a \<and> addr_for_target tgt2 = Inr a \<and>
    manager_connect tr tgt1 timeout1 s = (Inr dev1, s1) \<and>
    manager_connect tr tgt2 timeout2 (perform_all tr ops s1) = (Inr dev2, s2) \<longrightarrow>
      dev2 = dev1 \<and>
      map_of (managed_devices s1) a = Some dev1 \<and>
      map_of (managed_devices (perform_all tr ops s1)) a = Some dev1 \<and>
      map_of (managed_devices s2) a = Some dev1)"
proof (rule conjI)
  show "distinct (map fst (managed_devices s)) \<longrightarrow>
      distinct (map fst (managed_devices (perform_all tr ops s)))"
    by (simp add: perform_all_distinct)
next
  have "dev2 = dev1 \<and>
      map_of (managed_devices s1) a = Some dev1 \<and>
      map_of (managed_devices (perform_all tr ops s1)) a = Some dev1 \<and>
      map_of (managed_devices s2) a = Some dev1"
    if a: "addr_for_target tgt1 = Inr a \<and> addr_for_target tgt2 = Inr a \<and>
    manager_connect tr tgt1 timeout1 s = (Inr dev1, s1) \<and>
    manager_connect tr tgt2 timeout2 (perform_all tr ops s1) = (Inr dev2, s2)"
  proof -
  from a have 1: "map_of (managed_devices s1) a = Some dev1"
    by (blast intro: manager_connect_returns)
  then have 2: "map_of (managed_devices (perform_all tr ops s1)) a = Some dev1"
    by (rule perform_all_keeps)
  from a have 3: "map_of (managed_devices s2) a = Some dev2"
    by (blast intro: manager_connect_returns)
  from 2 have "map_of (managed_devices (snd (manager_connect tr tgt2 timeout2 (perform_all tr ops s1)))) a
      = Some dev1"
    by (rule manager_connect_keeps)
  with a have 4: "map_of (managed_devices s2) a = Some dev1" by simp
  with 3 have "dev2 = dev1" by simp
  with 1 2 4 show ?thesis by simp
  qed
  then show "addr_for_target tgt1 = Inr a \<and> addr_for_target tgt2 = Inr a \<and>
    manager_connect tr tgt1 timeout1 s = (Inr dev1, s1) \<and>
    manager_connect tr tgt2 timeout2 (perform_all tr ops s1) = (Inr dev2, s2) \<longrightarrow>
      dev2 = dev1 \<and>
      map_of (managed_devices s1) a = Some dev1 \<and>
      map_of (managed_devices (perform_all tr ops s1)) a = Some dev1 \<and>
      map_of (managed_devices s2) a = Some dev1"
    by (rule impI)
qed


lemma living_room_info:
  "addr_for_target (Info \<lparr>address = living_room, bt_device_name = [], name = None, rssi = 0\<rparr>)
     = Inr living_room"
  "addr_for_target (Address living_room) = Inr living_room"
  by (simp_all add: addr_for_target_def)

text \<open>
  The theorem on a manager that connects to the living room by address, then to the
  bedroom, then to the living room again by a \<^verbatim>\<open>PranaDeviceInfo\<close>.
\<close>

theorem registry_identity_witness:
  "distinct (map fst (managed_devices (manager_init hci0))) \<and>
   distinct (map fst (managed_devices
     (perform_all (transport_up sample_state_msg)
        [DoConnect (Address living_room) 5, DoDisconnectAll, DoConnect (Address bedroom) 5]
        (manager_init hci0)))) \<and>
   manager_connect (transport_up sample_state_msg) (Address living_room) 5 (manager_init hci0)
     = (Inr 0, connected_session) \<and>
   perform_all (transport_up sample_state_msg) [DoConnect (Address bedroom) 5] connected_session
     = two_sessions \<and>
   fst (manager_connect (transport_up sample_state_msg)
          (Info \<lparr>address = living_room, bt_device_name = [], name = None, rssi = 0\<rparr>) 5
          two_sessions) = Inr 0"
proof -
  let ?tr = "transport_up sample_state_msg"
  let ?info = "Info \<lparr>address = living_room, bt_device_name = [], name = None, rssi = 0\<rparr>"
  have i: "distinct (map fst (managed_devices (manager_init hci0)))"
    by (simp add: manager_init_def)
  have 1: "manager_connect ?tr (Address living_room) 5 (manager_init hci0) = (Inr 0, connected_session)"
    by (simp add: connected_session_eq manager_connect_def addr_for_target_def
      device_init_Address manager_init_def device_connect_def call_def transport_up_def Let_def)
  have 2: "perform_all ?tr [DoConnect (Address bedroom) 5] connected_session = two_sessions"
    by (simp add: perform_all_def two_sessions_def)
  obtain d s2 where 3: "manager_connect ?tr ?info 5 two_sessions = (d, s2)"
    by (cases "manager_connect ?tr ?info 5 two_sessions")
  have "map_of (managed_devices two_sessions) living_room = Some 0"
    by (simp add: two_sessions_eq)
  then have "manager_connect ?tr ?info 5 two_sessions =
      (case device_connect ?tr 0 5 two_sessions of
         (Inl e, s3) \<Rightarrow> (Inl e, s3) | (Inr _, s3) \<Rightarrow> (Inr 0, s3))"
    by (simp add: manager_connect_def living_room_info)
  moreover have "connect_reply ?tr (trace two_sessions) (client (objects two_sessions 0)) 5 = None"
    by (simp add: transport_up_def)
  ultimately have "\<exists>d'. d = Inr d'"
    using 3 by (auto simp: device_connect_opens transport_up_def)
  then obtain d' where 4: "manager_connect ?tr ?info 5 two_sessions = (Inr d', s2)"
    using 3 by blast
  from registry_identity
    [of "manager_init hci0" ?tr
        "[DoConnect (Address living_room) 5, DoDisconnectAll, DoConnect (Address bedroom) 5]"]
  have 5: "distinct (map fst (managed_devices
     (perform_all ?tr
        [DoConnect (Address living_room) 5, DoDisconnectAll, DoConnect (Address bedroom) 5]
        (manager_init hci0))))"
    using i by blast
  from registry_identity
    [of "manager_init hci0" ?tr "[DoConnect (Address bedroom) 5]" "Address living_room"
        living_room ?info 5 0 connected_session 5 d' s2]
  have "d' = 0" using 1 2 4 living_room_info by simp
  with 4 have 6: "fst (manager_connect ?tr ?info 5 two_sessions) = Inr 0" by simp
  from i 5 1 2 6 show ?thesis by (simp only: simp_thms)
qed

end
